(* ===== verification/Rust_Prelude.thy ===== *)
theory Rust_Prelude
  imports Main "HOL-Library.Word" "HOL-Library.AList" "HOL-Library.Monad_Syntax"
    "HOL-Library.Multiset"
begin

text \<open>
  What the netmon crates use of the Rust language and its standard library, below the
  level of any one crate: machine integers and saturating addition, bounds-checked
  indexing and slicing, instants and durations, poisonable locks, and the \<open>HashMap\<close>
  interface with the locale of laws its clients rely on.

  Conventions of the whole development:
  \<^item> A computation that can panic returns an \<open>option\<close>: \<open>None\<close> is the panic, and a
    \<open>do\<close> block over \<open>Option.bind\<close> runs to the first panic. A Rust \<open>Option\<close> is again an
    \<open>option\<close>, inside that one; a Rust \<open>Result\<close> is a sum with the error on the left.
  \<^item> \<open>u8\<close> to \<open>u64\<close> are words, so their \<open>+\<close> wraps as in the release build; \<open>usize\<close>
    is \<open>nat\<close> wherever it only counts elements of a buffer that exists.
  \<^item> An \<open>Instant\<close> is its distance from an origin in nanoseconds, a \<open>Duration\<close> a
    number of nanoseconds.
\<close>

section \<open>Hint collections\<close>

named_theorems panic_free \<open>operations that return instead of panicking\<close>
named_theorems hm_simps \<open>what the HashMap operations do to lookups and to the invariant\<close>

section \<open>Machine integers\<close>

type_synonym u8 = "8 word"
type_synonym u16 = "16 word"
type_synonym u32 = "32 word"
type_synonym u64 = "64 word"

definition saturating_add :: "'a::len word \<Rightarrow> 'a word \<Rightarrow> 'a word" where
  "saturating_add a b = (if unat a + unat b < 2 ^ LENGTH('a) then a + b else - 1)"

lemma unat_minus_one_word_nat: "unat (- 1 :: 'a::len word) = 2 ^ LENGTH('a) - 1"
  by (simp add: unat_eq_nat_uint unsigned_minus_1_eq_mask mask_eq_exp_minus_1 nat_diff_distrib nat_power_eq)

lemma unat_saturating_add:
  fixes a b :: "'a::len word"
  shows "unat (saturating_add a b) = min (unat a + unat b) (2 ^ LENGTH('a) - 1)"
proof (cases "unat a + unat b < 2 ^ LENGTH('a)")
  case True
  then have "unat (a + b) = unat a + unat b"
    by (metis unat_add_lem)
  with True show ?thesis
    by (simp add: saturating_add_def)
next
  case False
  then show ?thesis
    by (simp add: saturating_add_def unat_minus_one_word_nat)
qed

lemma saturating_add_mono: "a \<le> saturating_add a b" for a b :: "'a::len word"
proof -
  have "unat a < 2 ^ LENGTH('a)" by (rule unsigned_less)
  then have "unat a \<le> 2 ^ LENGTH('a) - 1" by linarith
  then show ?thesis by (simp add: word_le_nat_alt unat_saturating_add)
qed

lemma saturating_add_0 [simp]: "saturating_add a 0 = a"
  by (simp add: saturating_add_def)

section \<open>Checked indexing and slicing\<close>

definition idx :: "'a list \<Rightarrow> nat \<Rightarrow> 'a option" where
  "idx xs i = (if i < length xs then Some (xs ! i) else None)"

definition slice :: "'a list \<Rightarrow> nat \<Rightarrow> nat \<Rightarrow> 'a list option" where
  "slice xs a b = (if a \<le> b \<and> b \<le> length xs then Some (take (b - a) (drop a xs)) else None)"

lemma idx_in [simp, panic_free]: "i < length xs \<Longrightarrow> idx xs i = Some (xs ! i)"
  by (simp add: idx_def)

lemma idx_None_iff [simp]: "idx xs i = None \<longleftrightarrow> length xs \<le> i"
  by (simp add: idx_def)

lemma slice_in [simp, panic_free]:
  "a \<le> b \<Longrightarrow> b \<le> length xs \<Longrightarrow> slice xs a b = Some (take (b - a) (drop a xs))"
  by (simp add: slice_def)

lemma bind_returns [panic_free]:
  "m \<noteq> None \<Longrightarrow> (\<And>x. m = Some x \<Longrightarrow> f x \<noteq> None) \<Longrightarrow> Option.bind m f \<noteq> None"
  by (cases m) auto

lemma slice_length: "slice xs a b = Some ys \<Longrightarrow> length ys = b - a"
  by (auto simp: slice_def split: if_splits)

section \<open>Time\<close>

type_synonym instant = int
type_synonym duration = nat

definition from_millis :: "nat \<Rightarrow> duration" where
  "from_millis n = n * 1000000"

definition from_secs :: "nat \<Rightarrow> duration" where
  "from_secs n = n * 1000000000"

text \<open>\<open>Instant::elapsed\<close> is zero when the clock reads earlier than the instant.\<close>

definition elapsed :: "instant \<Rightarrow> instant \<Rightarrow> duration" where
  "elapsed now t = nat (now - t)"

lemma elapsed_self [simp]: "elapsed t t = 0"
  by (simp add: elapsed_def)

lemma elapsed_mono: "now \<le> now' \<Longrightarrow> elapsed now t \<le> elapsed now' t"
  by (simp add: elapsed_def)

section \<open>Locks\<close>

text \<open>
  An \<open>RwLock\<close> or \<open>Mutex\<close> is poisoned when a thread panicked while it held the lock;
  then \<open>read\<close>, \<open>write\<close> and \<open>lock\<close> return an error.
\<close>

datatype 'a rwlock = Unpoisoned 'a | Poisoned 'a

fun lock_write :: "('a \<Rightarrow> 'a) \<Rightarrow> 'a rwlock \<Rightarrow> 'a rwlock" where
  "lock_write f (Unpoisoned x) = Unpoisoned (f x)"
| "lock_write f (Poisoned x) = Poisoned x"

fun lock_read :: "'a rwlock \<Rightarrow> 'a option" where
  "lock_read (Unpoisoned x) = Some x"
| "lock_read (Poisoned x) = None"

section \<open>Hash maps\<close>

text \<open>
  A \<open>HashMap\<close> is the list of its entries in iteration order, one entry per key. Rust
  leaves that order open; here it is the order of first insertion, and what a theorem
  says of a result that depends on it is said for every order (every list that has the
  same entries).
\<close>

type_synonym ('k, 'v) hashmap = "('k \<times> 'v) list"

definition hm_invar :: "('k, 'v) hashmap \<Rightarrow> bool" where
  "hm_invar m \<longleftrightarrow> distinct (map fst m)"

definition hm_get :: "('k, 'v) hashmap \<Rightarrow> 'k \<Rightarrow> 'v option" where
  "hm_get m k = map_of m k"

definition hm_insert :: "'k \<Rightarrow> 'v \<Rightarrow> ('k, 'v) hashmap \<Rightarrow> ('k, 'v) hashmap" where
  "hm_insert k v m = AList.update k v m"

definition hm_remove :: "'k \<Rightarrow> ('k, 'v) hashmap \<Rightarrow> ('k, 'v) hashmap" where
  "hm_remove k m = AList.delete k m"

definition hm_retain :: "('k \<Rightarrow> 'v \<Rightarrow> bool) \<Rightarrow> ('k, 'v) hashmap \<Rightarrow> ('k, 'v) hashmap" where
  "hm_retain P m = filter (\<lambda>(k, v). P k v) m"

definition hm_map :: "('k \<Rightarrow> 'v \<Rightarrow> 'v) \<Rightarrow> ('k, 'v) hashmap \<Rightarrow> ('k, 'v) hashmap" where
  "hm_map f m = map (\<lambda>(k, v). (k, f k v)) m"

definition hm_values :: "('k, 'v) hashmap \<Rightarrow> 'v list" where
  "hm_values m = map snd m"

definition hm_keys :: "('k, 'v) hashmap \<Rightarrow> 'k list" where
  "hm_keys m = map fst m"

lemma hm_invar_Nil [simp]: "hm_invar []"
  by (simp add: hm_invar_def)

lemma hm_get_Nil [simp]: "hm_get [] k = None"
  by (simp add: hm_get_def)

lemma hm_get_insert [hm_simps]: "hm_get (hm_insert k v m) = (hm_get m)(k \<mapsto> v)"
  by (rule ext) (simp add: hm_get_def hm_insert_def update_conv')

lemma hm_invar_insert [hm_simps, simp]: "hm_invar m \<Longrightarrow> hm_invar (hm_insert k v m)"
  by (simp add: hm_invar_def hm_insert_def distinct_update)

lemma hm_get_remove [hm_simps]: "hm_get (hm_remove k m) = (hm_get m)(k := None)"
  by (rule ext) (simp add: hm_get_def hm_remove_def delete_conv')

lemma hm_invar_remove [hm_simps, simp]: "hm_invar m \<Longrightarrow> hm_invar (hm_remove k m)"
  by (simp add: hm_invar_def hm_remove_def distinct_delete)

lemma distinct_keys_filter: "distinct (map fst m) \<Longrightarrow> distinct (map fst (filter P m))"
  by (induction m) auto

lemma hm_invar_retain [hm_simps, simp]: "hm_invar m \<Longrightarrow> hm_invar (hm_retain P m)"
  by (simp add: hm_invar_def hm_retain_def distinct_keys_filter)

lemma hm_keys_map [hm_simps, simp]: "hm_keys (hm_map f m) = hm_keys m"
  by (induction m) (auto simp: hm_keys_def hm_map_def)

lemma hm_invar_keys: "hm_invar m \<longleftrightarrow> distinct (hm_keys m)"
  by (simp add: hm_invar_def hm_keys_def)

lemma hm_invar_map [hm_simps, simp]: "hm_invar (hm_map f m) = hm_invar m"
  by (simp add: hm_invar_keys)

lemma hm_get_map [hm_simps]: "hm_get (hm_map f m) k = map_option (f k) (hm_get m k)"
  by (induction m) (auto simp: hm_get_def hm_map_def)

lemma hm_get_Some_iff: "hm_invar m \<Longrightarrow> hm_get m k = Some v \<longleftrightarrow> (k, v) \<in> set m"
  by (simp add: hm_invar_def hm_get_def)

lemma hm_get_retain [hm_simps]:
  "hm_invar m \<Longrightarrow> hm_get (hm_retain P m) k =
     (case hm_get m k of None \<Rightarrow> None | Some v \<Rightarrow> if P k v then Some v else None)"
proof (induction m)
  case Nil
  then show ?case by (simp add: hm_get_def hm_retain_def)
next
  case (Cons e m)
  have "k \<notin> fst ` set m \<Longrightarrow> map_of (filter (\<lambda>(k, v). P k v) m) k = None"
    by (auto simp: map_of_eq_None_iff)
  with Cons show ?case
    by (cases e) (auto simp: hm_get_def hm_retain_def hm_invar_def split: option.splits)
qed

lemma set_hm_insert: "set (hm_insert k v m) \<subseteq> insert (k, v) (set m)"
  unfolding hm_insert_def by (induction m) auto

lemma hm_get_in_set: "hm_get m k = Some v \<Longrightarrow> (k, v) \<in> set m"
  by (simp add: hm_get_def map_of_SomeD)

subsection \<open>Sums over the entries\<close>

definition hm_sum :: "('k \<Rightarrow> 'v \<Rightarrow> nat) \<Rightarrow> ('k, 'v) hashmap \<Rightarrow> nat" where
  "hm_sum f m = sum_list (map (\<lambda>(k, v). f k v) m)"

lemma hm_sum_Nil [simp]: "hm_sum f [] = 0"
  by (simp add: hm_sum_def)

lemma hm_sum_insert:
  "hm_invar m \<Longrightarrow> hm_sum f (hm_insert k v m) + (case hm_get m k of None \<Rightarrow> 0 | Some u \<Rightarrow> f k u)
     = hm_sum f m + f k v"
  by (induction m)
     (auto simp: hm_sum_def hm_insert_def hm_get_def hm_invar_def map_of_eq_None_iff split: option.splits)

lemma hm_sum_retain: "hm_sum f (hm_retain P m) \<le> hm_sum f m"
  by (induction m) (auto simp: hm_sum_def hm_retain_def)

lemma hm_sum_map: "\<forall>(k, v) \<in> set m. f k (g k v) = f k v \<Longrightarrow> hm_sum f (hm_map g m) = hm_sum f m"
  by (induction m) (auto simp: hm_sum_def hm_map_def)

lemma hm_sum_mem: "hm_get m k = Some v \<Longrightarrow> f k v \<le> hm_sum f m"
  by (induction m) (auto simp: hm_sum_def hm_get_def split: if_splits)

lemma hm_sum_zero: "\<forall>(k, v) \<in> set m. f k v = 0 \<Longrightarrow> hm_sum f m = 0"
  by (induction m) (auto simp: hm_sum_def)

subsection \<open>The laws a client of a hash map relies on\<close>

locale hash_map =
  fixes get :: "'m \<Rightarrow> 'k \<Rightarrow> 'v option"
    and put :: "'k \<Rightarrow> 'v \<Rightarrow> 'm \<Rightarrow> 'm"
    and entries :: "'m \<Rightarrow> ('k \<times> 'v) list"
    and invar :: "'m \<Rightarrow> bool"
  assumes get_put: "invar m \<Longrightarrow> get (put k v m) = (get m)(k \<mapsto> v)"
    and invar_put: "invar m \<Longrightarrow> invar (put k v m)"
    and entries_get: "invar m \<Longrightarrow> (k, v) \<in> set (entries m) \<longleftrightarrow> get m k = Some v"
begin

text \<open>Inserting a list of values, each under a key of its own: the later one wins.\<close>

lemma invar_put_all: "invar m \<Longrightarrow> invar (fold (\<lambda>x. put (f x) (g x)) xs m)"
  by (induction xs arbitrary: m) (simp_all add: invar_put)

lemma get_put_all:
  "invar m \<Longrightarrow> get (fold (\<lambda>x. put (f x) (g x)) xs m) k =
     (case find (\<lambda>x. f x = k) (rev xs) of Some x \<Rightarrow> Some (g x) | None \<Rightarrow> get m k)"
proof (induction xs rule: rev_induct)
  case Nil
  then show ?case by simp
next
  case (snoc x xs)
  then have "invar (fold (\<lambda>x. put (f x) (g x)) xs m)"
    by (simp add: invar_put_all)
  with snoc show ?case by (simp add: get_put)
qed

text \<open>A map in which every value is stored under the key it carries.\<close>

lemma keyed_put:
  assumes "invar m" and "\<forall>k v. get m k = Some v \<longrightarrow> key v = k"
  shows "\<forall>k v. get (put (key w) w m) k = Some v \<longrightarrow> key v = k"
  using assms by (auto simp: get_put)

end

interpretation hm: hash_map hm_get hm_insert "\<lambda>m. m" hm_invar
  by unfold_locales (auto simp: hm_simps hm_get_Some_iff)

section \<open>Rate gates\<close>

text \<open>
  Three operations of the program run at most once per period: they compare the time
  elapsed since their last run with the period, and either do nothing or run and store
  the instant at which they finish. \<open>gate_run\<close> repeats such a step over a list of inputs and clock
  readings; \<open>gate_fires\<close> lists the instants at which it ran.
\<close>

fun gate_run :: "('i \<Rightarrow> instant \<Rightarrow> 's \<Rightarrow> bool \<times> 's) \<Rightarrow> ('i \<times> instant) list \<Rightarrow> 's \<Rightarrow> 's" where
  "gate_run step [] s = s"
| "gate_run step ((i, now) # xs) s = gate_run step xs (snd (step i now s))"

fun gate_fires :: "('i \<Rightarrow> instant \<Rightarrow> 's \<Rightarrow> bool \<times> 's) \<Rightarrow> ('i \<times> instant) list \<Rightarrow> 's \<Rightarrow> instant list" where
  "gate_fires step [] s = []"
| "gate_fires step ((i, now) # xs) s =
     (if fst (step i now s) then [now] else []) @ gate_fires step xs (snd (step i now s))"

definition spaced :: "duration \<Rightarrow> instant list \<Rightarrow> bool" where
  "spaced p ts \<longleftrightarrow> sorted_wrt (\<lambda>a b. a + int p \<le> b) ts"

locale rate_gate =
  fixes step :: "'i \<Rightarrow> instant \<Rightarrow> 's \<Rightarrow> bool \<times> 's"
    and last_run :: "'s \<Rightarrow> instant"
    and period :: duration
  assumes period_pos: "0 < period"
    and not_due: "elapsed now (last_run s) < period \<Longrightarrow> step i now s = (False, s)"
    and fired: "fst (step i now s) \<Longrightarrow> now \<le> last_run (snd (step i now s))"
    and kept: "\<not> fst (step i now s) \<Longrightarrow> last_run (snd (step i now s)) = last_run s"
begin

lemma fires_after: "t \<in> set (gate_fires step xs s) \<Longrightarrow> last_run s + int period \<le> t"
proof (induction xs arbitrary: s)
  case Nil
  then show ?case by simp
next
  case (Cons x xs)
  obtain i now where x: "x = (i, now)" by (cases x)
  show ?case
  proof (cases "fst (step i now s)")
    case True
    with not_due [of now s i] period_pos have due: "last_run s + int period \<le> now"
      by (force simp: elapsed_def not_less)
    from Cons.prems x True consider "t = now" | "t \<in> set (gate_fires step xs (snd (step i now s)))"
      by auto
    then show ?thesis
    proof cases
      case 1
      with due show ?thesis by simp
    next
      case 2
      from Cons.IH [OF 2] fired [OF True] due show ?thesis by simp
    qed
  next
    case False
    with Cons.prems x have "t \<in> set (gate_fires step xs (snd (step i now s)))" by simp
    from Cons.IH [OF this] kept [OF False] show ?thesis by simp
  qed
qed

lemma fires_spaced: "spaced period (gate_fires step xs s)"
proof (induction xs arbitrary: s)
  case Nil
  then show ?case by (simp add: spaced_def)
next
  case (Cons x xs)
  obtain i now where x: "x = (i, now)" by (cases x)
  show ?case
  proof (cases "fst (step i now s)")
    case True
    have "now + int period \<le> t" if "t \<in> set (gate_fires step xs (snd (step i now s)))" for t
      using fires_after [OF that] fired [OF True] by simp
    with Cons.IH [of "snd (step i now s)"] True show ?thesis
      by (simp add: x spaced_def)
  next
    case False
    with Cons.IH [of "snd (step i now s)"] show ?thesis by (simp add: x)
  qed
qed

text \<open>So a window of time holds at most one run per period, and one more.\<close>

lemma spaced_count:
  "spaced p ts \<Longrightarrow> ts \<noteq> [] \<Longrightarrow> hd ts + int p * int (length ts - 1) \<le> last ts"
proof (induction ts)
  case Nil
  then show ?case by simp
next
  case (Cons t ts)
  show ?case
  proof (cases ts)
    case Nil
    then show ?thesis by simp
  next
    case (Cons u us)
    with Cons.prems have "t + int p \<le> u" and "spaced p ts"
      by (auto simp: spaced_def)
    with Cons.IH Cons show ?thesis by (simp add: algebra_simps)
  qed
qed

lemma fires_bounded:
  assumes "gate_fires step xs s \<noteq> []"
  shows "int period * int (length (gate_fires step xs s) - 1)
     \<le> last (gate_fires step xs s) - hd (gate_fires step xs s)"
  using spaced_count [OF fires_spaced assms] by linarith

end

end
