(* ===== verification/Rust_Text.thy ===== *)
theory Rust_Text
  imports Rust_Prelude "HOL-Library.Sublist"
begin

text \<open>
  The operations of Rust's \<open>str\<close> and \<open>String\<close> that the crates use. A string is the list
  of its bytes; the text netmon reads (\<open>/proc\<close>, \<open>/etc/passwd\<close>, the output of nft) is
  taken to be ASCII, so that white space, letter case and the boundaries of characters
  are decided byte by byte. Parsing of integers follows \<open>from_str_radix\<close>, which takes a
  leading plus sign. The last section proves the round trips with printed numerals that
  the resolver and the controller depend on.
\<close>

section \<open>Splitting\<close>

fun split_by :: "(char \<Rightarrow> bool) \<Rightarrow> string \<Rightarrow> string list" where
  "split_by P [] = [[]]"
| "split_by P (c # cs) =
     (if P c then [] # split_by P cs
      else (case split_by P cs of [] \<Rightarrow> [[c]] | p # ps \<Rightarrow> (c # p) # ps))"

definition is_ws :: "char \<Rightarrow> bool" where
  "is_ws c \<longleftrightarrow> (let n = (of_char c :: nat) in n = 32 \<or> 9 \<le> n \<and> n \<le> 13)"

definition split_whitespace :: "string \<Rightarrow> string list" where
  "split_whitespace s = filter (\<lambda>p. p \<noteq> []) (split_by is_ws s)"

definition newline :: char where
  "newline = char_of (10 :: nat)"

definition strip_cr :: "string \<Rightarrow> string" where
  "strip_cr l = (if l \<noteq> [] \<and> last l = char_of (13 :: nat) then butlast l else l)"

text \<open>\<open>str::lines\<close>: no empty line after a final newline; a carriage return is dropped
  only in front of a newline.\<close>

definition str_lines :: "string \<Rightarrow> string list" where
  "str_lines s =
     (let ps = split_by (\<lambda>c. c = newline) s
      in map strip_cr (butlast ps) @ (if last ps = [] then [] else [last ps]))"

definition trim :: "string \<Rightarrow> string" where
  "trim s = rev (dropWhile is_ws (rev (dropWhile is_ws s)))"

fun join_strs :: "string \<Rightarrow> string list \<Rightarrow> string" where
  "join_strs sep [] = []"
| "join_strs sep [x] = x"
| "join_strs sep (x # y # ys) = x @ sep @ join_strs sep (y # ys)"

lemma split_by_nonempty [simp]: "split_by P s \<noteq> []"
  by (induction s) (auto split: list.splits)

lemma split_by_no_sep: "\<forall>c \<in> set s. \<not> P c \<Longrightarrow> split_by P s = [s]"
  by (induction s) auto

lemma split_by_append_sep:
  "\<forall>c \<in> set s. \<not> P c \<Longrightarrow> P d \<Longrightarrow> split_by P (s @ d # t) = s # split_by P t"
  by (induction s) auto

lemma split_by_append: "P d \<Longrightarrow> split_by P (s @ d # t) = split_by P s @ split_by P t"
  by (induction s) (auto split: list.split)

lemma split_join:
  "fs \<noteq> [] \<Longrightarrow> \<forall>f \<in> set fs. c \<notin> set f \<Longrightarrow> split_by (\<lambda>x. x = c) (join_strs [c] fs) = fs"
proof (induction "[c]" fs rule: join_strs.induct)
  case (2 f)
  then show ?case by (auto intro!: split_by_no_sep)
next
  case (3 f g fs)
  then have "split_by (\<lambda>x. x = c) (f @ c # join_strs [c] (g # fs)) = f # split_by (\<lambda>x. x = c) (join_strs [c] (g # fs))"
    by (intro split_by_append_sep) auto
  with 3 show ?case by simp
qed simp

lemma split_by_pieces: "p \<in> set (split_by P s) \<Longrightarrow> c \<in> set p \<Longrightarrow> \<not> P c \<and> c \<in> set s"
  by (induction s arbitrary: p) (fastforce split: if_splits list.splits)+

lemma str_lines_line: "newline \<notin> set l \<Longrightarrow> str_lines (l @ newline # s) = strip_cr l # str_lines s"
proof -
  assume "newline \<notin> set l"
  then have "split_by (\<lambda>c. c = newline) (l @ newline # s) = l # split_by (\<lambda>c. c = newline) s"
    by (intro split_by_append_sep) auto
  then show ?thesis by (simp add: str_lines_def Let_def)
qed

lemma str_lines_Nil [simp]: "str_lines [] = []"
  by (simp add: str_lines_def)

lemma str_lines_concat:
  "\<forall>l \<in> set ls. newline \<notin> set l \<and> char_of (13 :: nat) \<notin> set l \<Longrightarrow>
   str_lines (concat (map (\<lambda>l. l @ [newline]) ls)) = ls"
proof (induction ls)
  case (Cons l ls)
  then have "strip_cr l = l" by (auto simp: strip_cr_def dest: last_in_set)
  with Cons show ?case by (simp add: str_lines_line)
qed simp

section \<open>Searching\<close>

definition starts_with :: "string \<Rightarrow> string \<Rightarrow> bool" where
  "starts_with p s \<longleftrightarrow> take (length p) s = p"

definition ends_with :: "string \<Rightarrow> string \<Rightarrow> bool" where
  "ends_with p s \<longleftrightarrow> length p \<le> length s \<and> drop (length s - length p) s = p"

definition strip_prefix :: "string \<Rightarrow> string \<Rightarrow> string option" where
  "strip_prefix p s = (if starts_with p s then Some (drop (length p) s) else None)"

fun contains :: "string \<Rightarrow> string \<Rightarrow> bool" where
  "contains p [] = (p = [])"
| "contains p (c # cs) = (starts_with p (c # cs) \<or> contains p cs)"

fun rfind :: "string \<Rightarrow> string \<Rightarrow> nat option" where
  "rfind p [] = (if p = [] then Some 0 else None)"
| "rfind p (c # cs) =
     (case rfind p cs of Some i \<Rightarrow> Some (Suc i)
      | None \<Rightarrow> if starts_with p (c # cs) then Some 0 else None)"

definition replace_char :: "char \<Rightarrow> char \<Rightarrow> string \<Rightarrow> string" where
  "replace_char a b s = map (\<lambda>c. if c = a then b else c) s"

definition to_lowercase :: "string \<Rightarrow> string" where
  "to_lowercase s =
     map (\<lambda>c. let n = (of_char c :: nat) in if 65 \<le> n \<and> n \<le> 90 then char_of (n + 32) else c) s"

lemma starts_with_iff: "starts_with p s \<longleftrightarrow> (\<exists>t. s = p @ t)"
  unfolding starts_with_def by (metis append_eq_conv_conj append_take_drop_id)

lemma starts_with_append [simp]: "starts_with p (p @ t)"
  by (simp add: starts_with_def)

lemma strip_prefix_append [simp]: "strip_prefix p (p @ t) = Some t"
  by (simp add: strip_prefix_def)

lemma ends_with_iff: "ends_with p s \<longleftrightarrow> (\<exists>t. s = t @ p)"
proof
  assume "ends_with p s"
  then have "s = take (length s - length p) s @ p"
    unfolding ends_with_def by (metis append_take_drop_id)
  then show "\<exists>t. s = t @ p" ..
qed (auto simp: ends_with_def)

lemma ends_with_append [simp]: "ends_with p (t @ p)"
  by (auto simp: ends_with_iff)

lemma bracketed_iff:
  assumes "p \<noteq> []" and "last p \<noteq> c"
  shows "starts_with p s \<and> ends_with [c] s \<longleftrightarrow> (\<exists>u. s = p @ u @ [c])"
proof
  assume "starts_with p s \<and> ends_with [c] s"
  then obtain u v where s: "s = p @ u" "s = v @ [c]"
    unfolding starts_with_iff ends_with_iff by blast
  show "\<exists>u. s = p @ u @ [c]"
  proof (cases u rule: rev_cases)
    case Nil
    with s assms show ?thesis by (metis append_Nil2 last_snoc)
  next
    case (snoc w d)
    with s show ?thesis by auto
  qed
next
  assume "\<exists>u. s = p @ u @ [c]"
  then show "starts_with p s \<and> ends_with [c] s"
    by (metis append_assoc ends_with_append starts_with_append)
qed

lemma contains_iff: "contains p s \<longleftrightarrow> (\<exists>a b. s = a @ p @ b)"
proof (induction s)
  case Nil
  then show ?case by auto
next
  case (Cons c cs)
  have "(\<exists>a b. c # cs = a @ p @ b) \<longleftrightarrow>
      (\<exists>b. c # cs = p @ b) \<or> (\<exists>a b. cs = a @ p @ b)"
    by (metis append_Cons append_Nil list.inject neq_Nil_conv)
  with Cons show ?case by (simp add: starts_with_iff)
qed

lemma contains_infix [simp]: "contains p (a @ p @ b)"
  by (auto simp: contains_iff)

lemma rfind_bound: "rfind p s = Some i \<Longrightarrow> i + length p \<le> length s"
proof (induction s arbitrary: i)
  case Nil
  then show ?case by (auto split: if_splits)
next
  case (Cons c cs)
  show ?case
  proof (cases "rfind p cs")
    case None
    with Cons.prems have "i = 0" and "starts_with p (c # cs)"
      by (auto split: if_splits)
    then show ?thesis by (auto simp: starts_with_iff dest: arg_cong [of _ _ length])
  next
    case (Some j)
    with Cons show ?thesis by fastforce
  qed
qed

lemma rfind_None_iff: "rfind p s = None \<longleftrightarrow> \<not> contains p s"
  by (induction s) (auto split: option.splits)

text \<open>Appending text without the pattern in it leaves the last occurrence where it is.\<close>

lemma rfind_append:
  "rfind p t = Some i \<Longrightarrow> rfind p (s @ t) = Some (length s + i)"
  by (induction s) auto

section \<open>Integers\<close>

definition to_digit :: "nat \<Rightarrow> char \<Rightarrow> nat option" where
  "to_digit radix c =
     (let n = (of_char c :: nat);
          d = (if 48 \<le> n \<and> n \<le> 57 then n - 48
               else if 97 \<le> n \<and> n \<le> 122 then n - 87
               else if 65 \<le> n \<and> n \<le> 90 then n - 55
               else radix)
      in if d < radix then Some d else None)"

fun digits_val :: "nat \<Rightarrow> string \<Rightarrow> nat \<Rightarrow> nat option" where
  "digits_val radix [] acc = Some acc"
| "digits_val radix (c # cs) acc =
     (case to_digit radix c of None \<Rightarrow> None | Some d \<Rightarrow> digits_val radix cs (acc * radix + d))"

text \<open>
  \<open>uN::from_str_radix\<close>, with \<open>str::parse\<close> its radix 10: an empty text, a lone sign, a
  digit outside the radix (a minus sign among them) and a value of \<open>2 ^ N\<close> or more are
  errors; one leading plus sign is accepted.
\<close>

definition from_str_radix :: "nat \<Rightarrow> string \<Rightarrow> 'a::len word option" where
  "from_str_radix radix s =
     (if s = [] then None
      else let ds = (if hd s = CHR ''+'' then tl s else s)
        in if ds = [] then None
           else case digits_val radix ds 0 of
             None \<Rightarrow> None
           | Some n \<Rightarrow> if n < 2 ^ LENGTH('a) then Some (of_nat n) else None)"

definition parse_dec :: "string \<Rightarrow> 'a::len word option" where
  "parse_dec s = from_str_radix 10 s"

definition digit_char :: "nat \<Rightarrow> char" where
  "digit_char d = char_of (if d < 10 then 48 + d else 55 + d)"

fun show_nat :: "nat \<Rightarrow> string" where
  "show_nat n = (if n < 10 then [digit_char n] else show_nat (n div 10) @ [digit_char (n mod 10)])"

declare show_nat.simps [simp del]

definition show_word :: "'a::len word \<Rightarrow> string" where
  "show_word w = show_nat (unat w)"

text \<open>\<open>{:0kX}\<close>: exactly \<open>k\<close> upper-case hexadecimal digits of a number below \<open>16 ^ k\<close>.\<close>

fun show_hex :: "nat \<Rightarrow> nat \<Rightarrow> string" where
  "show_hex 0 n = []"
| "show_hex (Suc k) n = show_hex k (n div 16) @ [digit_char (n mod 16)]"

subsection \<open>Reading back what was printed\<close>

lemma of_char_digit_char: "d < 36 \<Longrightarrow> (of_char (digit_char d) :: nat) = (if d < 10 then 48 + d else 55 + d)"
  by (simp add: digit_char_def)

lemma to_digit_digit_char: "d < radix \<Longrightarrow> radix \<le> 36 \<Longrightarrow> to_digit radix (digit_char d) = Some d"
  by (auto simp: to_digit_def of_char_digit_char Let_def)

lemma digits_val_append:
  "digits_val r (xs @ ys) acc =
     (case digits_val r xs acc of None \<Rightarrow> None | Some a \<Rightarrow> digits_val r ys a)"
  by (induction xs arbitrary: acc) (auto split: option.splits)

lemma digits_val_show_nat: "digits_val 10 (show_nat n) 0 = Some n"
proof (induction n rule: show_nat.induct)
  case (1 n)
  then show ?case
    by (subst show_nat.simps) (auto simp: to_digit_digit_char digits_val_append)
qed

lemma digits_val_show_hex: "n < 16 ^ k \<Longrightarrow> digits_val 16 (show_hex k n) 0 = Some n"
proof (induction k arbitrary: n)
  case 0
  then show ?case by simp
next
  case (Suc k)
  from Suc.prems have "n div 16 < 16 ^ k"
    by (simp add: less_mult_imp_div_less mult.commute)
  with Suc.IH show ?case
    by (simp add: digits_val_append to_digit_digit_char)
qed

lemma length_show_hex [simp]: "length (show_hex k n) = k"
  by (induction k arbitrary: n) auto

lemma show_nat_nonempty [simp]: "show_nat n \<noteq> []"
  by (subst show_nat.simps) simp

definition alnum :: "char \<Rightarrow> bool" where
  "alnum c \<longleftrightarrow> (let n = (of_char c :: nat) in 48 \<le> n \<and> n \<le> 57 \<or> 65 \<le> n \<and> n \<le> 90)"

lemma alnum_digit_char: "d < 36 \<Longrightarrow> alnum (digit_char d)"
  by (auto simp: alnum_def of_char_digit_char Let_def)

lemma alnum_show_nat: "\<forall>c \<in> set (show_nat n). alnum c"
proof (induction n rule: show_nat.induct)
  case (1 n)
  then show ?case by (subst show_nat.simps) (auto simp: alnum_digit_char)
qed

lemma alnum_show_hex: "\<forall>c \<in> set (show_hex k n). alnum c"
proof (induction k arbitrary: n)
  case (Suc k)
  have "n mod 16 < 36" using mod_less_divisor [of 16 n] by linarith
  with Suc show ?case by (auto simp: alnum_digit_char)
qed simp

lemma alnum_not [simp]:
  "alnum c \<Longrightarrow> \<not> is_ws c" "alnum c \<Longrightarrow> c \<noteq> CHR '':''" "alnum c \<Longrightarrow> c \<noteq> CHR ''+''"
  "alnum c \<Longrightarrow> c \<noteq> newline" "alnum c \<Longrightarrow> c \<noteq> CHR '']''" "alnum c \<Longrightarrow> c \<noteq> CHR ''-''"
  by (auto simp: alnum_def is_ws_def newline_def Let_def)

lemma from_str_radix_digits:
  assumes "digits_val radix s 0 = Some n" and "s \<noteq> []" and "\<forall>c \<in> set s. alnum c"
    and "n < 2 ^ LENGTH('a)"
  shows "from_str_radix radix s = Some (of_nat n :: 'a::len word)"
proof -
  from assms(2,3) have "hd s \<noteq> CHR ''+''" by (cases s) auto
  with assms show ?thesis by (simp add: from_str_radix_def)
qed

lemma parse_dec_show_nat:
  "n < 2 ^ LENGTH('a) \<Longrightarrow> parse_dec (show_nat n) = Some (of_nat n :: 'a::len word)"
  unfolding parse_dec_def
  by (rule from_str_radix_digits) (simp_all add: digits_val_show_nat alnum_show_nat)

lemma parse_dec_show_word: "parse_dec (show_word w) = Some w" for w :: "'a::len word"
  by (simp add: show_word_def parse_dec_show_nat)

lemma from_str_radix_show_hex:
  assumes "n < 16 ^ k" and "0 < k" and "n < 2 ^ LENGTH('a)"
  shows "from_str_radix 16 (show_hex k n) = Some (of_nat n :: 'a::len word)"
proof (rule from_str_radix_digits)
  show "show_hex k n \<noteq> []"
    using assms(2) length_show_hex [of k n] by fastforce
qed (use assms in \<open>simp_all add: digits_val_show_hex alnum_show_hex\<close>)

lemma from_str_radix_empty [simp]: "from_str_radix r [] = None"
  by (simp add: from_str_radix_def)

lemma show_nat_inj: "show_nat a = show_nat b \<Longrightarrow> a = b"
  by (metis digits_val_show_nat option.inject)

lemma trim_no_ws:
  assumes "\<forall>c \<in> set s. \<not> is_ws c"
  shows "trim s = s"
proof -
  have keep: "dropWhile is_ws t = t" if "set t = set s" for t
    using assms that by (cases t) auto
  from keep [of s] keep [of "rev s"] show ?thesis by (simp add: trim_def)
qed

end
