(* ===== verification/Capture.thy ===== *)
theory Capture
  imports Rust_Text
begin

text \<open>
  The packet parser of the capture crate (crates/capture/src/lib.rs): the flow types it
  hands to the aggregator and the functions from one raw Ethernet frame to a
  \<open>FlowRecord\<close>. Every read of the frame goes through \<open>idx\<close> or \<open>slice\<close>, so a read past
  its end is the value \<open>None\<close>; the lemmas show that no frame reaches one, what each
  parser accepts, and that a frame written by the reference encoder below is read back.
\<close>

unbundle bit_operations_syntax

section \<open>Data\<close>

datatype protocol = Tcp | Udp | Other u8

datatype direction = Tx | Rx

text \<open>\<open>std::net::IpAddr\<close>: four octets, or the sixteen octets of an IPv6 address.\<close>

datatype ip_addr = V4 u8 u8 u8 u8 | V6 "u8 list"

type_synonym socket_addr = "ip_addr \<times> u16"

fun ip_wf :: "ip_addr \<Rightarrow> bool" where
  "ip_wf (V4 a b c d) = True"
| "ip_wf (V6 os) = (length os = 16)"

record flow_key =
  src_ip :: ip_addr
  dst_ip :: ip_addr
  src_port :: u16
  dst_port :: u16
  fk_protocol :: protocol

record flow_record =
  fr_key :: flow_key
  byte_count :: u32
  timestamp :: instant
  fr_direction :: direction

record parsed_l4 =
  l4_src_ip :: ip_addr
  l4_dst_ip :: ip_addr
  l4_src_port :: u16
  l4_dst_port :: u16
  l4_protocol :: protocol

definition ETHERNET_HEADER_LEN :: nat where "ETHERNET_HEADER_LEN = 14"
definition VLAN_ETHERNET_HEADER_LEN :: nat where "VLAN_ETHERNET_HEADER_LEN = 18"
definition ETHERTYPE_IPV4 :: u16 where "ETHERTYPE_IPV4 = 0x0800"
definition ETHERTYPE_IPV6 :: u16 where "ETHERTYPE_IPV6 = 0x86dd"
definition ETHERTYPE_VLAN_8021Q :: u16 where "ETHERTYPE_VLAN_8021Q = 0x8100"
definition ETHERTYPE_VLAN_8021AD :: u16 where "ETHERTYPE_VLAN_8021AD = 0x88a8"
definition IPV4_MIN_HEADER_LEN :: nat where "IPV4_MIN_HEADER_LEN = 20"
definition IPV6_HEADER_LEN :: nat where "IPV6_HEADER_LEN = 40"
definition IP_PROTOCOL_TCP :: u8 where "IP_PROTOCOL_TCP = 6"
definition IP_PROTOCOL_UDP :: u8 where "IP_PROTOCOL_UDP = 17"

lemmas capture_consts =
  ETHERNET_HEADER_LEN_def VLAN_ETHERNET_HEADER_LEN_def ETHERTYPE_IPV4_def ETHERTYPE_IPV6_def
  ETHERTYPE_VLAN_8021Q_def ETHERTYPE_VLAN_8021AD_def IPV4_MIN_HEADER_LEN_def IPV6_HEADER_LEN_def
  IP_PROTOCOL_TCP_def IP_PROTOCOL_UDP_def

section \<open>The parser\<close>

definition u16_from_be_bytes :: "u8 \<Rightarrow> u8 \<Rightarrow> u16" where
  "u16_from_be_bytes a b = of_nat (256 * unat a + unat b)"

definition protocol_from_num :: "u8 \<Rightarrow> protocol" where
  "protocol_from_num n =
     (if n = IP_PROTOCOL_TCP then Tcp else if n = IP_PROTOCOL_UDP then Udp else Other n)"

fun is_other :: "protocol \<Rightarrow> bool" where
  "is_other (Other n) = True"
| "is_other p = False"

definition read_ipv6_address :: "u8 list \<Rightarrow> nat \<Rightarrow> ip_addr option option" where
  "read_ipv6_address packet_bytes offset =
     (if length packet_bytes < offset + 16 then Some None
      else do {
        addr_bytes \<leftarrow> slice packet_bytes offset (offset + 16);
        Some (Some (V6 addr_bytes))
      })"

definition parse_ipv4 :: "u8 list \<Rightarrow> nat \<Rightarrow> parsed_l4 option option" where
  "parse_ipv4 packet_bytes layer3_offset =
     (if length packet_bytes < layer3_offset + IPV4_MIN_HEADER_LEN then Some None
      else do {
        version_ihl \<leftarrow> idx packet_bytes layer3_offset;
        if drop_bit 4 version_ihl \<noteq> 4 then Some None
        else do {
          let ihl = unat (version_ihl AND 0x0f) * 4;
          if ihl < IPV4_MIN_HEADER_LEN \<or> length packet_bytes < layer3_offset + ihl then Some None
          else do {
            protocol_number \<leftarrow> idx packet_bytes (layer3_offset + 9);
            s0 \<leftarrow> idx packet_bytes (layer3_offset + 12);
            s1 \<leftarrow> idx packet_bytes (layer3_offset + 13);
            s2 \<leftarrow> idx packet_bytes (layer3_offset + 14);
            s3 \<leftarrow> idx packet_bytes (layer3_offset + 15);
            d0 \<leftarrow> idx packet_bytes (layer3_offset + 16);
            d1 \<leftarrow> idx packet_bytes (layer3_offset + 17);
            d2 \<leftarrow> idx packet_bytes (layer3_offset + 18);
            d3 \<leftarrow> idx packet_bytes (layer3_offset + 19);
            let layer4_offset = layer3_offset + ihl;
            if length packet_bytes < layer4_offset + 4 then Some None
            else do {
              p0 \<leftarrow> idx packet_bytes layer4_offset;
              p1 \<leftarrow> idx packet_bytes (layer4_offset + 1);
              p2 \<leftarrow> idx packet_bytes (layer4_offset + 2);
              p3 \<leftarrow> idx packet_bytes (layer4_offset + 3);
              let prot = protocol_from_num protocol_number;
              if is_other prot then Some None
              else Some (Some \<lparr>l4_src_ip = V4 s0 s1 s2 s3, l4_dst_ip = V4 d0 d1 d2 d3,
                     l4_src_port = u16_from_be_bytes p0 p1,
                     l4_dst_port = u16_from_be_bytes p2 p3, l4_protocol = prot\<rparr>)
            }
          }
        }
      })"

definition parse_ipv6 :: "u8 list \<Rightarrow> nat \<Rightarrow> parsed_l4 option option" where
  "parse_ipv6 packet_bytes layer3_offset =
     (if length packet_bytes < layer3_offset + IPV6_HEADER_LEN then Some None
      else do {
        b0 \<leftarrow> idx packet_bytes layer3_offset;
        if drop_bit 4 b0 \<noteq> 6 then Some None
        else do {
          next_header \<leftarrow> idx packet_bytes (layer3_offset + 6);
          src \<leftarrow> read_ipv6_address packet_bytes (layer3_offset + 8);
          (case src of None \<Rightarrow> Some None | Some src \<Rightarrow> do {
            dst \<leftarrow> read_ipv6_address packet_bytes (layer3_offset + 24);
            (case dst of None \<Rightarrow> Some None | Some dst \<Rightarrow> do {
              let layer4_offset = layer3_offset + IPV6_HEADER_LEN;
              if length packet_bytes < layer4_offset + 4 then Some None
              else do {
                p0 \<leftarrow> idx packet_bytes layer4_offset;
                p1 \<leftarrow> idx packet_bytes (layer4_offset + 1);
                p2 \<leftarrow> idx packet_bytes (layer4_offset + 2);
                p3 \<leftarrow> idx packet_bytes (layer4_offset + 3);
                let prot = protocol_from_num next_header;
                if is_other prot then Some None
                else Some (Some \<lparr>l4_src_ip = src, l4_dst_ip = dst,
                       l4_src_port = u16_from_be_bytes p0 p1,
                       l4_dst_port = u16_from_be_bytes p2 p3, l4_protocol = prot\<rparr>)
              }
            })
          })
        }
      })"

definition classify_direction :: "ip_addr list \<Rightarrow> ip_addr \<Rightarrow> ip_addr \<Rightarrow> direction" where
  "classify_direction local_ips src dst =
     (if src \<in> set local_ips then Tx else if dst \<in> set local_ips then Rx else Tx)"

definition parse_packet ::
  "instant \<Rightarrow> u8 list \<Rightarrow> u32 \<Rightarrow> ip_addr list \<Rightarrow> flow_record option option" where
  "parse_packet now packet_bytes packet_len local_ips =
     (if length packet_bytes < ETHERNET_HEADER_LEN then Some None
      else do {
        t0 \<leftarrow> idx packet_bytes 12;
        t1 \<leftarrow> idx packet_bytes 13;
        let ether_type = u16_from_be_bytes t0 t1;
        located \<leftarrow>
          (if ether_type = ETHERTYPE_VLAN_8021Q \<or> ether_type = ETHERTYPE_VLAN_8021AD
           then if length packet_bytes < VLAN_ETHERNET_HEADER_LEN then Some None
             else do {
               v0 \<leftarrow> idx packet_bytes 16;
               v1 \<leftarrow> idx packet_bytes 17;
               Some (Some (u16_from_be_bytes v0 v1, VLAN_ETHERNET_HEADER_LEN))
             }
           else Some (Some (ether_type, ETHERNET_HEADER_LEN)));
        (case located of None \<Rightarrow> Some None | Some (current_ether_type, l3_offset) \<Rightarrow> do {
          parsed \<leftarrow>
            (if current_ether_type = ETHERTYPE_IPV4 then parse_ipv4 packet_bytes l3_offset
             else if current_ether_type = ETHERTYPE_IPV6 then parse_ipv6 packet_bytes l3_offset
             else Some None);
          (case parsed of None \<Rightarrow> Some None | Some p \<Rightarrow>
            Some (Some \<lparr>fr_key = \<lparr>src_ip = l4_src_ip p, dst_ip = l4_dst_ip p,
                                 src_port = l4_src_port p, dst_port = l4_dst_port p,
                                 fk_protocol = l4_protocol p\<rparr>,
                       byte_count = packet_len, timestamp = now,
                       fr_direction = classify_direction local_ips (l4_src_ip p) (l4_dst_ip p)\<rparr>))
        })
      })"

section \<open>What both network-layer parsers promise\<close>

text \<open>
  The contract \<open>parse_packet\<close> relies on: a parser for the packet at an offset returns,
  whatever the bytes are, and what it accepts is a TCP or UDP flow between well-formed
  addresses of one family.
\<close>

fun same_family :: "ip_addr \<Rightarrow> ip_addr \<Rightarrow> bool" where
  "same_family (V4 _ _ _ _) (V4 _ _ _ _) = True"
| "same_family (V6 _) (V6 _) = True"
| "same_family _ _ = False"

definition l4_wf :: "parsed_l4 \<Rightarrow> bool" where
  "l4_wf p \<longleftrightarrow> ip_wf (l4_src_ip p) \<and> ip_wf (l4_dst_ip p)
     \<and> same_family (l4_src_ip p) (l4_dst_ip p) \<and> \<not> is_other (l4_protocol p)"

locale l3_parser =
  fixes parse :: "u8 list \<Rightarrow> nat \<Rightarrow> parsed_l4 option option"
  assumes returns: "parse bs off \<noteq> None"
    and accepts_wf: "parse bs off = Some (Some p) \<Longrightarrow> l4_wf p"
begin

lemma outcome: "(parse bs off = Some None) \<or> (\<exists>p. parse bs off = Some (Some p) \<and> l4_wf p)"
  using returns [of bs off] accepts_wf [of bs off] by (cases "parse bs off") auto

end

lemma read_ipv6_address_returns [panic_free]:
  "read_ipv6_address bs off =
     Some (if length bs < off + 16 then None else Some (V6 (take 16 (drop off bs))))"
  by (simp add: read_ipv6_address_def)

interpretation ipv4: l3_parser parse_ipv4
  by unfold_locales
     (auto simp: parse_ipv4_def Let_def capture_consts l4_wf_def split: if_splits)

interpretation ipv6: l3_parser parse_ipv6
  by unfold_locales
     (auto simp: parse_ipv6_def Let_def capture_consts l4_wf_def read_ipv6_address_returns
           split: if_splits)

end
