(* ===== verification/Netlink.thy ===== *)
theory Netlink
  imports Capture
begin

text \<open>
  The SOCK_DIAG client of crates/resolver/src/netlink.rs: the C structs it exchanges with
  the kernel, the request it builds, the parser of one reply datagram and the dump loop
  over datagrams. Structs are read and written with the layout of \<open>repr(C)\<close> on the
  little-endian machines the program runs on. The netlink socket is a parameter: the
  outcome of opening it and of each send, and the datagrams it will deliver.

  \<open>None\<close> in a result of the dump loop means that it does not return: a panic (there is
  none, as shown below) or a \<open>recv\<close> that blocks because the kernel sends nothing more.
\<close>

section \<open>Bytes of machine integers\<close>

type_synonym i32 = "32 word"

definition u16_from_le_bytes :: "u8 \<Rightarrow> u8 \<Rightarrow> u16" where
  "u16_from_le_bytes a b = of_nat (unat a + 256 * unat b)"

definition u32_from_le_bytes :: "u8 \<Rightarrow> u8 \<Rightarrow> u8 \<Rightarrow> u8 \<Rightarrow> u32" where
  "u32_from_le_bytes a b c d = of_nat (unat a + 256 * (unat b + 256 * (unat c + 256 * unat d)))"

definition u16_to_le_bytes :: "u16 \<Rightarrow> u8 list" where
  "u16_to_le_bytes w = [of_nat (unat w), of_nat (unat w div 256)]"

definition u32_to_le_bytes :: "u32 \<Rightarrow> u8 list" where
  "u32_to_le_bytes w = [of_nat (unat w), of_nat (unat w div 256), of_nat (unat w div 65536),
     of_nat (unat w div 16777216)]"

definition u32_to_be_bytes :: "u32 \<Rightarrow> u8 list" where
  "u32_to_be_bytes w = rev (u32_to_le_bytes w)"

text \<open>\<open>from_be\<close> on a little-endian machine swaps the bytes.\<close>

definition u16_from_be :: "u16 \<Rightarrow> u16" where
  "u16_from_be w = (case u16_to_le_bytes w of [a, b] \<Rightarrow> u16_from_le_bytes b a | _ \<Rightarrow> w)"

definition u32_from_be :: "u32 \<Rightarrow> u32" where
  "u32_from_be w = (case u32_to_le_bytes w of [a, b, c, d] \<Rightarrow> u32_from_le_bytes d c b a | _ \<Rightarrow> w)"

lemma digits2: "a < 256 \<Longrightarrow> (a + 256 * b) mod 256 = a \<and> (a + 256 * b) div 256 = b" for a b :: nat
  by simp

lemma unat_u8_lt [simp]: "unat (a :: u8) < 256"
  using unsigned_less [of a] by simp

lemma unat_u8_le: "unat (a :: u8) \<le> 255"
  using unat_u8_lt [of a] by linarith

lemma unat_of_nat_u8 [simp]: "unat (of_nat n :: u8) = n mod 256"
  by (simp add: unat_of_nat)

lemma of_nat_u8_add [simp]: "(of_nat (unat a + 256 * n) :: u8) = a"
  by (rule word_unat_eq_iff [THEN iffD2]) (simp del: of_nat_add of_nat_mult)

lemma base256_bound:
  fixes a b c d :: nat
  assumes "a \<le> 255" "b \<le> 255" "c \<le> 255" "d \<le> 255"
  shows "a + 256 * (b + 256 * (c + 256 * d)) < 4294967296"
  using assms by simp

lemma unat_u32_from_le_bytes:
  "unat (u32_from_le_bytes a b c d) = unat a + 256 * (unat b + 256 * (unat c + 256 * unat d))"
proof -
  have "unat a + 256 * (unat b + 256 * (unat c + 256 * unat d)) < 4294967296"
    by (intro base256_bound unat_u8_le)
  then show ?thesis by (simp only: u32_from_le_bytes_def unat_of_nat) simp
qed

lemma unat_u16_from_le_bytes: "unat (u16_from_le_bytes a b) = unat a + 256 * unat b"
proof -
  have "unat a + 256 * unat b < 65536"
    using unat_u8_lt [of a] unat_u8_lt [of b] by linarith
  then show ?thesis by (simp only: u16_from_le_bytes_def unat_of_nat) simp
qed

lemma u32_le_bytes_roundtrip [simp]: "u32_to_le_bytes (u32_from_le_bytes a b c d) = [a, b, c, d]"
proof -
  define n where "n = unat (u32_from_le_bytes a b c d)"
  have n: "n = unat a + 256 * (unat b + 256 * (unat c + 256 * unat d))"
    by (simp only: n_def unat_u32_from_le_bytes)
  have d0: "(of_nat n :: u8) = a" unfolding n by (rule of_nat_u8_add)
  have d1: "n div 256 = unat b + 256 * (unat c + 256 * unat d)"
    unfolding n using digits2 [OF unat_u8_lt] by blast
  have "n div 65536 = n div 256 div 256" by (simp add: div_mult2_eq [symmetric])
  then have d2: "n div 65536 = unat c + 256 * unat d"
    unfolding d1 using digits2 [OF unat_u8_lt] by (simp only:)
  have "n div 16777216 = n div 65536 div 256" by (simp add: div_mult2_eq [symmetric])
  then have d3: "n div 16777216 = unat d + 256 * 0"
    unfolding d2 using digits2 [OF unat_u8_lt, of c "unat d"] by simp
  show ?thesis
    unfolding u32_to_le_bytes_def n_def [symmetric] d0 d1 d2 d3 by (simp only: of_nat_u8_add)
qed

lemma u16_le_bytes_roundtrip [simp]: "u16_to_le_bytes (u16_from_le_bytes a b) = [a, b]"
proof -
  have "(unat a + 256 * unat b) div 256 = unat b + 256 * 0"
    using digits2 [OF unat_u8_lt] by simp
  then show ?thesis
    unfolding u16_to_le_bytes_def unat_u16_from_le_bytes by (simp only: of_nat_u8_add)
qed

lemma u16_le_be: "u16_from_le_bytes b a = u16_from_be_bytes a b"
  by (simp add: u16_from_le_bytes_def u16_from_be_bytes_def add.commute)

lemma u16_from_be_of_bytes [simp]: "u16_from_be (u16_from_le_bytes a b) = u16_from_be_bytes a b"
  unfolding u16_from_be_def u16_le_bytes_roundtrip by (simp add: u16_le_be)

lemma u32_from_be_of_bytes [simp]:
  "u32_from_be (u32_from_le_bytes a b c d) = u32_from_le_bytes d c b a"
  by (simp add: u32_from_be_def)

section \<open>Constants and structs\<close>

definition REQUEST_SOCKET_STATES_ALL :: u32 where "REQUEST_SOCKET_STATES_ALL = - 1"
definition AF_INET_FAMILY :: u8 where "AF_INET_FAMILY = 2"
definition AF_INET6_FAMILY :: u8 where "AF_INET6_FAMILY = 10"
definition IPPROTO_TCP_PROTOCOL :: u8 where "IPPROTO_TCP_PROTOCOL = 6"
definition IPPROTO_UDP_PROTOCOL :: u8 where "IPPROTO_UDP_PROTOCOL = 17"
definition SOCK_DIAG_BY_FAMILY_TYPE :: u16 where "SOCK_DIAG_BY_FAMILY_TYPE = 20"
definition NLMSG_DONE_TYPE :: u16 where "NLMSG_DONE_TYPE = 3"
definition NLMSG_ERROR_TYPE :: u16 where "NLMSG_ERROR_TYPE = 2"
definition NLM_F_REQUEST_FLAG :: u16 where "NLM_F_REQUEST_FLAG = 0x0001"
definition NLM_F_DUMP_FLAG :: u16 where "NLM_F_DUMP_FLAG = 0x0300"
definition NLMSG_FLAG_DUMP_REQUEST :: u16 where
  "NLMSG_FLAG_DUMP_REQUEST = NLM_F_REQUEST_FLAG OR NLM_F_DUMP_FLAG"
definition NETLINK_REQUEST_SEQUENCE :: u32 where "NETLINK_REQUEST_SEQUENCE = 1"

lemmas netlink_types =
  SOCK_DIAG_BY_FAMILY_TYPE_def NLMSG_DONE_TYPE_def NLMSG_ERROR_TYPE_def

datatype netlink_error =
  SocketOpen string | SendFailed string | RecvFailed string | KernelError i32 | ParseError

record socket_entry =
  se_inode :: u64
  se_local_addr :: socket_addr
  se_remote_addr :: socket_addr
  se_state :: string
  se_uid :: u32
  se_protocol :: protocol

type_synonym socket_map = "(u64, socket_entry) hashmap"

record inet_diag_sock_id =
  idiag_sport :: u16
  idiag_dport :: u16
  idiag_src :: "u32 list"
  idiag_dst :: "u32 list"
  idiag_if :: u32
  idiag_cookie :: "u32 list"

record inet_diag_req_v2 =
  sdiag_family :: u8
  sdiag_protocol :: u8
  idiag_ext :: u8
  pad :: u8
  idiag_states :: u32
  req_id :: inet_diag_sock_id

record inet_diag_msg =
  idiag_family :: u8
  idiag_state :: u8
  idiag_timer :: u8
  idiag_retrans :: u8
  msg_id :: inet_diag_sock_id
  idiag_expires :: u32
  idiag_rqueue :: u32
  idiag_wqueue :: u32
  idiag_uid :: u32
  idiag_inode :: u32

record raw_nlmsghdr =
  nlmsg_len :: u32
  nlmsg_type :: u16
  nlmsg_flags :: u16
  nlmsg_seq :: u32
  nlmsg_pid :: u32

definition SIZE_NLMSGHDR :: nat where "SIZE_NLMSGHDR = 16"
definition SIZE_INET_DIAG_REQ :: nat where "SIZE_INET_DIAG_REQ = 56"
definition SIZE_INET_DIAG_MSG :: nat where "SIZE_INET_DIAG_MSG = 72"
definition SIZE_NLMSGERR :: nat where "SIZE_NLMSGERR = 20"

lemmas struct_sizes =
  SIZE_NLMSGHDR_def SIZE_INET_DIAG_REQ_def SIZE_INET_DIAG_MSG_def SIZE_NLMSGERR_def

subsection \<open>Layouts\<close>

definition u16_at :: "u8 list \<Rightarrow> nat \<Rightarrow> u16" where
  "u16_at bs i = u16_from_le_bytes (bs ! i) (bs ! (i + 1))"

definition u32_at :: "u8 list \<Rightarrow> nat \<Rightarrow> u32" where
  "u32_at bs i = u32_from_le_bytes (bs ! i) (bs ! (i + 1)) (bs ! (i + 2)) (bs ! (i + 3))"

definition nlmsghdr_layout :: "u8 list \<Rightarrow> raw_nlmsghdr" where
  "nlmsghdr_layout bs = \<lparr>nlmsg_len = u32_at bs 0, nlmsg_type = u16_at bs 4,
     nlmsg_flags = u16_at bs 6, nlmsg_seq = u32_at bs 8, nlmsg_pid = u32_at bs 12\<rparr>"

definition sock_id_layout :: "u8 list \<Rightarrow> nat \<Rightarrow> inet_diag_sock_id" where
  "sock_id_layout bs i = \<lparr>idiag_sport = u16_at bs i, idiag_dport = u16_at bs (i + 2),
     idiag_src = map (\<lambda>k. u32_at bs (i + 4 + 4 * k)) [0, 1, 2, 3],
     idiag_dst = map (\<lambda>k. u32_at bs (i + 20 + 4 * k)) [0, 1, 2, 3],
     idiag_if = u32_at bs (i + 36), idiag_cookie = map (\<lambda>k. u32_at bs (i + 40 + 4 * k)) [0, 1]\<rparr>"

definition diag_msg_layout :: "u8 list \<Rightarrow> inet_diag_msg" where
  "diag_msg_layout bs = \<lparr>idiag_family = bs ! 0, idiag_state = bs ! 1, idiag_timer = bs ! 2,
     idiag_retrans = bs ! 3, msg_id = sock_id_layout bs 4, idiag_expires = u32_at bs 52,
     idiag_rqueue = u32_at bs 56, idiag_wqueue = u32_at bs 60, idiag_uid = u32_at bs 64,
     idiag_inode = u32_at bs 68\<rparr>"

text \<open>\<open>NetlinkErrorMessageRaw\<close> is the error code and the header of the request.\<close>

definition nlmsgerr_layout :: "u8 list \<Rightarrow> i32" where
  "nlmsgerr_layout bs = u32_at bs 0"

text \<open>
  \<open>read_struct\<close>: the bounds check makes \<open>bytes[offset..]\<close> and the unaligned read below
  it safe, so this is total; \<open>None\<close> is its own \<open>None\<close>.
\<close>

definition read_struct :: "nat \<Rightarrow> (u8 list \<Rightarrow> 'a) \<Rightarrow> u8 list \<Rightarrow> nat \<Rightarrow> 'a option" where
  "read_struct sz layout bytes offset =
     (if length bytes < offset + sz then None
      else Some (layout (take sz (drop offset bytes))))"

definition append_nlmsghdr :: "raw_nlmsghdr \<Rightarrow> u8 list" where
  "append_nlmsghdr h = u32_to_le_bytes (nlmsg_len h) @ u16_to_le_bytes (nlmsg_type h)
     @ u16_to_le_bytes (nlmsg_flags h) @ u32_to_le_bytes (nlmsg_seq h)
     @ u32_to_le_bytes (nlmsg_pid h)"

definition append_sock_id :: "inet_diag_sock_id \<Rightarrow> u8 list" where
  "append_sock_id i = u16_to_le_bytes (idiag_sport i) @ u16_to_le_bytes (idiag_dport i)
     @ concat (map u32_to_le_bytes (idiag_src i)) @ concat (map u32_to_le_bytes (idiag_dst i))
     @ u32_to_le_bytes (idiag_if i) @ concat (map u32_to_le_bytes (idiag_cookie i))"

definition append_diag_req :: "inet_diag_req_v2 \<Rightarrow> u8 list" where
  "append_diag_req r = [sdiag_family r, sdiag_protocol r, idiag_ext r, pad r]
     @ u32_to_le_bytes (idiag_states r) @ append_sock_id (req_id r)"

section \<open>The request\<close>

definition build_inet_diag_request :: "u8 \<Rightarrow> u8 \<Rightarrow> netlink_error + u8 list" where
  "build_inet_diag_request family prot =
     (let diag_request = \<lparr>sdiag_family = family, sdiag_protocol = prot, idiag_ext = 0, pad = 0,
            idiag_states = REQUEST_SOCKET_STATES_ALL,
            req_id = \<lparr>idiag_sport = 0, idiag_dport = 0, idiag_src = [0, 0, 0, 0],
              idiag_dst = [0, 0, 0, 0], idiag_if = 0, idiag_cookie = [0, 0]\<rparr>\<rparr>;
          header = \<lparr>nlmsg_len = of_nat (SIZE_NLMSGHDR + SIZE_INET_DIAG_REQ),
            nlmsg_type = SOCK_DIAG_BY_FAMILY_TYPE, nlmsg_flags = NLMSG_FLAG_DUMP_REQUEST,
            nlmsg_seq = NETLINK_REQUEST_SEQUENCE, nlmsg_pid = 0\<rparr>;
          request = append_nlmsghdr header @ append_diag_req diag_request
      in if request = [] then Inl ParseError else Inr request)"

section \<open>One diagnostic message\<close>

definition tcp_state_to_str :: "u8 \<Rightarrow> string" where
  "tcp_state_to_str st =
     (if st = 1 then ''ESTABLISHED'' else if st = 2 then ''SYN_SENT''
      else if st = 3 then ''SYN_RECV'' else if st = 4 then ''FIN_WAIT1''
      else if st = 5 then ''FIN_WAIT2'' else if st = 6 then ''TIME_WAIT''
      else if st = 7 then ''CLOSE'' else if st = 8 then ''CLOSE_WAIT''
      else if st = 9 then ''LAST_ACK'' else if st = 10 then ''LISTEN''
      else if st = 11 then ''CLOSING'' else ''UNKNOWN'')"

definition ipv4_from_u32 :: "u32 \<Rightarrow> ip_addr" where
  "ipv4_from_u32 w = (case u32_to_be_bytes w of [a, b, c, d] \<Rightarrow> V4 a b c d | _ \<Rightarrow> V4 0 0 0 0)"

definition ipv6_from_be_words :: "u32 list \<Rightarrow> ip_addr" where
  "ipv6_from_be_words addr_words =
     V6 (concat (map (\<lambda>w. u32_to_be_bytes (u32_from_be w)) addr_words))"

definition socket_addr_from_diag :: "u8 \<Rightarrow> u32 list \<Rightarrow> u16 \<Rightarrow> socket_addr option" where
  "socket_addr_from_diag family addr_words raw_port =
     (let port = u16_from_be raw_port in
      if family = AF_INET_FAMILY then Some (ipv4_from_u32 (u32_from_be (addr_words ! 0)), port)
      else if family = AF_INET6_FAMILY then Some (ipv6_from_be_words addr_words, port)
      else None)"

definition entry_of_diag :: "inet_diag_msg \<Rightarrow> protocol \<Rightarrow> netlink_error + socket_entry" where
  "entry_of_diag m protocol_kind =
     (case socket_addr_from_diag (idiag_family m) (idiag_src (msg_id m)) (idiag_sport (msg_id m)) of
        None \<Rightarrow> Inl ParseError
      | Some local_addr \<Rightarrow>
          (case socket_addr_from_diag (idiag_family m) (idiag_dst (msg_id m)) (idiag_dport (msg_id m)) of
             None \<Rightarrow> Inl ParseError
           | Some remote_addr \<Rightarrow>
               Inr \<lparr>se_inode = ucast (idiag_inode m), se_local_addr = local_addr,
                    se_remote_addr = remote_addr, se_state = tcp_state_to_str (idiag_state m),
                    se_uid = idiag_uid m, se_protocol = protocol_kind\<rparr>))"

definition parse_inet_diag_message :: "u8 list \<Rightarrow> protocol \<Rightarrow> netlink_error + socket_entry" where
  "parse_inet_diag_message payload protocol_kind =
     (case read_struct SIZE_INET_DIAG_MSG diag_msg_layout payload 0 of
        None \<Rightarrow> Inl ParseError
      | Some diag_message \<Rightarrow> entry_of_diag diag_message protocol_kind)"

definition parse_kernel_error :: "u8 list \<Rightarrow> netlink_error + i32" where
  "parse_kernel_error payload =
     (case read_struct SIZE_NLMSGERR nlmsgerr_layout payload 0 of
        None \<Rightarrow> Inl ParseError
      | Some error \<Rightarrow> if error = 0 then Inr 0 else Inr (- error))"

section \<open>One reply datagram\<close>

text \<open>\<open>nlmsg_align\<close> on 64-bit \<open>usize\<close>, and the arithmetic it stands for.\<close>

definition nlmsg_align :: "u64 \<Rightarrow> u64" where
  "nlmsg_align len = (len + 4 - 1) AND NOT (4 - 1)"


lemma unat_nlmsg_align:
  assumes "n + 3 < 2 ^ 64"
  shows "unat (nlmsg_align (of_nat n)) = 4 * ((n + 3) div 4)"
proof -
  have len: "unat (of_nat n + 4 - 1 :: u64) = n + 3"
  proof -
    have "(of_nat n + 4 - 1 :: u64) = of_nat (n + 3)" by simp
    then show ?thesis using assms by (simp add: unat_of_nat del: of_nat_add)
  qed
  have "(w AND NOT (mask 2 :: u64)) = push_bit 2 (drop_bit 2 w)" for w
    by (rule bit_eqI) (auto simp: bit_simps not_less dest!: le_Suc_ex)
  moreover have "(4 - 1 :: u64) = mask 2" by (simp add: mask_eq_exp_minus_1)
  ultimately have "nlmsg_align (of_nat n) = push_bit 2 (drop_bit 2 (of_nat n + 4 - 1))"
    by (simp only: nlmsg_align_def)
  then have "unat (nlmsg_align (of_nat n)) = take_bit 64 (push_bit 2 (drop_bit 2 (n + 3)))"
    using assms by (simp only: unsigned_push_bit_eq unsigned_drop_bit_eq len) (simp add: take_bit_nat_eq_self)
  also have "\<dots> = take_bit 64 (4 * ((n + 3) div 4))"
    by (simp add: push_bit_eq_mult drop_bit_eq_div mult.commute)
  also have "\<dots> = 4 * ((n + 3) div 4)"
  proof -
    have "4 * ((n + 3) div 4) < 2 ^ 64"
      using assms by (rule le_less_trans [OF times_div_less_eq_dividend])
    then show ?thesis by (simp only: take_bit_nat_eq_self_iff)
  qed
  finally show ?thesis .
qed

lemma align_ge: "n \<le> unat (nlmsg_align (of_nat n))" if "n < 2 ^ 32" for n
proof -
  have "n \<le> 4 * ((n + 3) div 4)" by presburger
  with that show ?thesis by (simp add: unat_nlmsg_align)
qed

lemma align_len_pos: "l \<noteq> 0 \<Longrightarrow> 0 < unat (nlmsg_align (of_nat (unat l)))" for l :: u32
proof -
  assume "l \<noteq> 0"
  then have "0 < unat l" by (simp add: unat_gt_0)
  moreover have "unat l < 2 ^ 32" using unsigned_less [of l] by simp
  ultimately show ?thesis using align_ge [of "unat l"] by linarith
qed

text \<open>
  One pass of the loop of \<open>parse_response_messages\<close> at an offset that leaves room for a
  header: it returns from the function, or goes on at a later offset. The map is changed in
  place by the code, so what was inserted before an error stays in it.
\<close>

datatype message_outcome = Return "netlink_error + bool" | Next nat

definition message_step ::
  "u8 list \<Rightarrow> protocol \<Rightarrow> nat \<Rightarrow> socket_map \<Rightarrow> (message_outcome \<times> socket_map) option" where
  "message_step response_bytes protocol_kind offset m =
     (case read_struct SIZE_NLMSGHDR nlmsghdr_layout response_bytes offset of
        None \<Rightarrow> Some (Return (Inl ParseError), m)
      | Some header \<Rightarrow>
          if nlmsg_len header = 0 then Some (Return (Inl ParseError), m)
          else do {
            let message_len = unat (nlmsg_len header);
            if length response_bytes < offset + message_len then Some (Return (Inl ParseError), m)
            else do {
              let payload_offset = offset + SIZE_NLMSGHDR;
              let payload_len = message_len - SIZE_NLMSGHDR;
              let next_offset = offset + unat (nlmsg_align (of_nat message_len));
              payload \<leftarrow> slice response_bytes payload_offset (payload_offset + payload_len);
              Some (if nlmsg_type header = NLMSG_DONE_TYPE then (Return (Inr True), m)
                else if nlmsg_type header = NLMSG_ERROR_TYPE then
                  (case parse_kernel_error payload of
                     Inl e \<Rightarrow> (Return (Inl e), m)
                   | Inr kernel_error \<Rightarrow> (Return (Inl (KernelError kernel_error)), m))
                else if nlmsg_type header = SOCK_DIAG_BY_FAMILY_TYPE then
                  (case parse_inet_diag_message payload protocol_kind of
                     Inl e \<Rightarrow> (Return (Inl e), m)
                   | Inr entry \<Rightarrow> (Next next_offset, hm_insert (se_inode entry) entry m))
                else (Next next_offset, m))
            }
          })"

lemma message_step_advances:
  "message_step bs kind offset m = Some (Next offset', m') \<Longrightarrow> offset < offset'"
  by (auto simp: message_step_def Let_def bind_eq_Some_conv dest: align_len_pos
      split: option.splits if_splits sum.splits)

text \<open>
  The loop. It ends because a message of length zero is refused and every other one moves
  the offset.
\<close>

function parse_messages ::
  "u8 list \<Rightarrow> protocol \<Rightarrow> nat \<Rightarrow> socket_map \<Rightarrow> ((netlink_error + bool) \<times> socket_map) option" where
  "parse_messages response_bytes protocol_kind offset m =
     (if offset + SIZE_NLMSGHDR \<le> length response_bytes then do {
        (outcome, m) \<leftarrow> message_step response_bytes protocol_kind offset m;
        (case outcome of
           Return result \<Rightarrow> Some (result, m)
         | Next next_offset \<Rightarrow> parse_messages response_bytes protocol_kind next_offset m)
      }
      else Some (Inr False, m))"
  by pat_completeness auto
termination
  by (relation "measure (\<lambda>(bs, k, offset, m). length bs - offset)")
     (auto simp: SIZE_NLMSGHDR_def dest!: message_step_advances)

declare parse_messages.simps [simp del]

definition parse_response_messages ::
  "u8 list \<Rightarrow> protocol \<Rightarrow> socket_map \<Rightarrow> ((netlink_error + bool) \<times> socket_map) option" where
  "parse_response_messages response_bytes protocol_kind m =
     parse_messages response_bytes protocol_kind 0 m"

section \<open>The dump\<close>

datatype recv_result = RecvErr string | Datagram "u8 list"

text \<open>
  The receive loop of \<open>query_family_protocol\<close> over the datagrams the socket delivers; the
  result holds those not yet received.
\<close>

fun recv_loop ::
  "protocol \<Rightarrow> recv_result list \<Rightarrow> socket_map
   \<Rightarrow> ((netlink_error + unit) \<times> recv_result list \<times> socket_map) option" where
  "recv_loop protocol_kind [] m = None"
| "recv_loop protocol_kind (RecvErr e # rs) m = Some (Inl (RecvFailed e), rs, m)"
| "recv_loop protocol_kind (Datagram bytes # rs) m =
     (if bytes = [] then Some (Inl ParseError, rs, m)
      else do {
        (result, m) \<leftarrow> parse_response_messages bytes protocol_kind m;
        (case result of
           Inl e \<Rightarrow> Some (Inl e, rs, m)
         | Inr saw_done \<Rightarrow>
             if saw_done then Some (Inr (), rs, m) else recv_loop protocol_kind rs m)
      })"

text \<open>
  The netlink socket: the error of opening, binding or connecting it, if any, the error of
  a send, and the results of the successive calls of \<open>recv\<close>. A \<open>Datagram\<close> is what the
  code reads after a successful call, the bytes \<open>recv_buffer[..received]\<close>.
\<close>

record netlink_env =
  nl_open :: "string option"
  nl_send :: "u8 list \<Rightarrow> string option"
  nl_recv :: "recv_result list"

definition query_family_protocol ::
  "(u8 list \<Rightarrow> string option) \<Rightarrow> u8 \<Rightarrow> u8 \<Rightarrow> protocol \<Rightarrow> recv_result list \<Rightarrow> socket_map
   \<Rightarrow> ((netlink_error + unit) \<times> recv_result list \<times> socket_map) option" where
  "query_family_protocol send family prot protocol_kind recvs m =
     (case build_inet_diag_request family prot of
        Inl e \<Rightarrow> Some (Inl e, recvs, m)
      | Inr request_bytes \<Rightarrow>
          (case send request_bytes of
             Some e \<Rightarrow> Some (Inl (SendFailed e), recvs, m)
           | None \<Rightarrow> recv_loop protocol_kind recvs m))"

text \<open>The four dumps, in order; the first error ends the sequence.\<close>

fun query_all ::
  "(u8 list \<Rightarrow> string option) \<Rightarrow> (u8 \<times> u8 \<times> protocol) list \<Rightarrow> recv_result list \<Rightarrow> socket_map
   \<Rightarrow> (netlink_error + socket_map) option" where
  "query_all send [] recvs m = Some (Inr m)"
| "query_all send ((family, prot, kind) # qs) recvs m = do {
     (result, recvs, m) \<leftarrow> query_family_protocol send family prot kind recvs m;
     (case result of Inl e \<Rightarrow> Some (Inl e) | Inr _ \<Rightarrow> query_all send qs recvs m)
   }"

definition dump_queries :: "(u8 \<times> u8 \<times> protocol) list" where
  "dump_queries =
     [(AF_INET_FAMILY, IPPROTO_TCP_PROTOCOL, Tcp), (AF_INET_FAMILY, IPPROTO_UDP_PROTOCOL, Udp),
      (AF_INET6_FAMILY, IPPROTO_TCP_PROTOCOL, Tcp), (AF_INET6_FAMILY, IPPROTO_UDP_PROTOCOL, Udp)]"

definition query_sockets :: "netlink_env \<Rightarrow> (netlink_error + socket_map) option" where
  "query_sockets env =
     (case nl_open env of
        Some e \<Rightarrow> Some (Inl (SocketOpen e))
      | None \<Rightarrow> query_all (nl_send env) dump_queries (nl_recv env) [])"

end
