(* ===== verification/Netlink_Wire.thy ===== *)
theory Netlink_Wire
  imports Netlink
begin

text \<open>
  Correctness of the SOCK_DIAG client: the parser never panics, keeps the socket map keyed
  by inode with well-formed addresses, and reads a well-formed kernel reply (messages with
  attributes and padding, as a datatype with its byte layout) exactly as the messages say;
  the dump returns as soon as the kernel ends each of its replies.
\<close>

section \<open>What a socket source promises\<close>

definition entry_ok :: "socket_entry \<Rightarrow> bool" where
  "entry_ok e \<longleftrightarrow> ip_wf (fst (se_local_addr e)) \<and> ip_wf (fst (se_remote_addr e))
     \<and> same_family (fst (se_local_addr e)) (fst (se_remote_addr e))
     \<and> (se_protocol e = Tcp \<or> se_protocol e = Udp)"

definition sockets_ok :: "socket_map \<Rightarrow> bool" where
  "sockets_ok m \<longleftrightarrow> hm_invar m \<and> (\<forall>k e. hm_get m k = Some e \<longrightarrow> se_inode e = k \<and> entry_ok e)"

lemma sockets_ok_Nil [simp]: "sockets_ok []"
  by (simp add: sockets_ok_def)

lemma sockets_ok_insert:
  "sockets_ok m \<Longrightarrow> entry_ok e \<Longrightarrow> sockets_ok (hm_insert (se_inode e) e m)"
  by (auto simp: sockets_ok_def hm_simps)

lemma length_u32_to_be_bytes [simp]: "length (u32_to_be_bytes w) = 4"
  by (simp add: u32_to_be_bytes_def u32_to_le_bytes_def)

lemma ipv4_from_u32_V4: "\<exists>a b c d. ipv4_from_u32 w = V4 a b c d"
  by (simp add: ipv4_from_u32_def u32_to_be_bytes_def u32_to_le_bytes_def)

lemma length_ipv6_words:
  "length (concat (map (\<lambda>w. u32_to_be_bytes (u32_from_be w)) ws)) = 4 * length ws"
  by (induction ws) simp_all

lemma diag_addr:
  assumes "socket_addr_from_diag f ws p = Some a"
  shows "(f = AF_INET_FAMILY \<and> (\<exists>b c d e. fst a = V4 b c d e))
     \<or> (f = AF_INET6_FAMILY \<and> (\<exists>os. fst a = V6 os \<and> length os = 4 * length ws))"
  using assms ipv4_from_u32_V4 [of "u32_from_be (ws ! 0)"] length_ipv6_words [of ws]
  by (auto simp: socket_addr_from_diag_def ipv6_from_be_words_def Let_def split: if_splits)

lemma entry_of_diag_ok:
  assumes "entry_of_diag d kind = Inr e" and "length (idiag_src (msg_id d)) = 4"
    and "length (idiag_dst (msg_id d)) = 4" and "kind = Tcp \<or> kind = Udp"
  shows "entry_ok e"
proof -
  from assms(1) obtain l r
    where l: "socket_addr_from_diag (idiag_family d) (idiag_src (msg_id d)) (idiag_sport (msg_id d)) = Some l"
      and r: "socket_addr_from_diag (idiag_family d) (idiag_dst (msg_id d)) (idiag_dport (msg_id d)) = Some r"
      and e: "se_local_addr e = l" "se_remote_addr e = r" "se_protocol e = kind"
    by (auto simp: entry_of_diag_def split: option.splits)
  from diag_addr [OF l] diag_addr [OF r] assms(2-4) show ?thesis
    by (auto simp: entry_ok_def e AF_INET_FAMILY_def AF_INET6_FAMILY_def)
qed

lemma parse_inet_diag_message_ok:
  assumes "parse_inet_diag_message bs kind = Inr e" and "kind = Tcp \<or> kind = Udp"
  shows "entry_ok e"
proof -
  from assms(1) obtain d where "entry_of_diag d kind = Inr e"
    and "length (idiag_src (msg_id d)) = 4" "length (idiag_dst (msg_id d)) = 4"
    by (auto simp: parse_inet_diag_message_def read_struct_def diag_msg_layout_def
        sock_id_layout_def split: if_splits)
  with assms(2) show ?thesis by (blast intro: entry_of_diag_ok)
qed

section \<open>The datagram parser on any bytes\<close>

lemma message_step_returns:
  assumes "off + SIZE_NLMSGHDR \<le> length bs"
  shows "message_step bs kind off m \<noteq> None"
proof
  assume "message_step bs kind off m = None"
  with assms show False
    by (auto simp: message_step_def Let_def bind_eq_None_conv slice_def read_struct_def
        split: if_splits option.splits)
qed

lemma parse_messages_returns: "parse_messages bs kind off m \<noteq> None"
proof (induction bs kind off m rule: parse_messages.induct)
  case (1 bs kind off m)
  show ?case
  proof (cases "off + SIZE_NLMSGHDR \<le> length bs")
    case False
    then show ?thesis by (subst parse_messages.simps) simp
  next
    case True
    with message_step_returns obtain out m1 where st: "message_step bs kind off m = Some (out, m1)"
      by fastforce
    show ?thesis
    proof (cases out)
      case (Return x)
      with True st show ?thesis by (subst parse_messages.simps) simp
    next
      case (Next off')
      from "1.IH" [OF True st refl Next] True st Next show ?thesis
        by (subst parse_messages.simps) simp
    qed
  qed
qed

lemma message_step_ok:
  assumes "sockets_ok m" and "kind = Tcp \<or> kind = Udp" and "message_step bs kind off m = Some (r, m')"
  shows "sockets_ok m'"
  using assms
  by (auto simp: message_step_def Let_def bind_eq_Some_conv
      split: if_splits option.splits sum.splits intro: sockets_ok_insert parse_inet_diag_message_ok)

lemma parse_messages_ok:
  "sockets_ok m \<Longrightarrow> kind = Tcp \<or> kind = Udp \<Longrightarrow> parse_messages bs kind off m = Some (r, m')
   \<Longrightarrow> sockets_ok m'"
proof (induction bs kind off m rule: parse_messages.induct)
  case (1 bs kind off m)
  show ?case
  proof (cases "off + SIZE_NLMSGHDR \<le> length bs")
    case False
    with "1.prems" show ?thesis by (subst (asm) parse_messages.simps) simp
  next
    case True
    with message_step_returns obtain out m1 where st: "message_step bs kind off m = Some (out, m1)"
      by fastforce
    have ok: "sockets_ok m1" using "1.prems"(1,2) st by (rule message_step_ok)
    show ?thesis
    proof (cases out)
      case (Return x)
      with "1.prems"(3) True st ok show ?thesis by (subst (asm) parse_messages.simps) simp
    next
      case (Next off')
      with "1.prems"(3) True st have "parse_messages bs kind off' m1 = Some (r, m')"
        by (subst (asm) parse_messages.simps) simp
      with "1.IH" [OF True st refl] Next ok "1.prems"(2) show ?thesis by blast
    qed
  qed
qed

section \<open>Struct round trips\<close>

lemma base256_digits:
  fixes n :: nat
  assumes "n < 4294967296"
  shows "n mod 256 + 256 * (n div 256 mod 256
       + 256 * (n div 65536 mod 256 + 256 * (n div 16777216 mod 256))) = n"
proof -
  have "n div 16777216 mod 256 = n div 16777216"
    using assms by (intro mod_less) (simp add: less_mult_imp_div_less)
  moreover have "n div 16777216 = n div 65536 div 256" "n div 65536 = n div 256 div 256"
    by (simp_all add: div_mult2_eq [symmetric])
  moreover have "k mod 256 + 256 * (k div 256) = k" for k :: nat by simp
  ultimately show ?thesis by (simp only:)
qed

lemma u32_of_le_bytes [simp]:
  "u32_from_le_bytes (ucast w) (of_nat (unat w div 256)) (of_nat (unat w div 65536))
     (of_nat (unat w div 16777216)) = w"
proof -
  have "unat w < 4294967296" using unsigned_less [of w] by simp
  from base256_digits [OF this]
  have "unat (u32_from_le_bytes (of_nat (unat w)) (of_nat (unat w div 256))
      (of_nat (unat w div 65536)) (of_nat (unat w div 16777216))) = unat w"
    by (simp only: unat_u32_from_le_bytes unat_of_nat_u8)
  then show ?thesis by (simp add: word_unat_eq_iff)
qed

lemma u16_of_le_bytes [simp]: "u16_from_le_bytes (ucast w) (of_nat (unat w div 256)) = w"
proof -
  have "unat w < 65536" using unsigned_less [of w] by simp
  then have "unat w div 256 mod 256 = unat w div 256"
    by (intro mod_less) (simp add: less_mult_imp_div_less)
  then have "unat (u16_from_le_bytes (of_nat (unat w)) (of_nat (unat w div 256))) = unat w"
    by (simp only: unat_u16_from_le_bytes unat_of_nat_u8) simp
  then show ?thesis by (simp add: word_unat_eq_iff)
qed

lemma length_append_nlmsghdr: "length (append_nlmsghdr h) = 16"
  by (simp add: append_nlmsghdr_def u32_to_le_bytes_def u16_to_le_bytes_def)

lemma nlmsghdr_roundtrip: "nlmsghdr_layout (append_nlmsghdr h) = h"
  by (simp add: nlmsghdr_layout_def append_nlmsghdr_def u32_to_le_bytes_def u16_to_le_bytes_def
      u32_at_def u16_at_def)

definition append_diag_msg :: "inet_diag_msg \<Rightarrow> u8 list" where
  "append_diag_msg m = [idiag_family m, idiag_state m, idiag_timer m, idiag_retrans m]
     @ append_sock_id (msg_id m) @ u32_to_le_bytes (idiag_expires m)
     @ u32_to_le_bytes (idiag_rqueue m) @ u32_to_le_bytes (idiag_wqueue m)
     @ u32_to_le_bytes (idiag_uid m) @ u32_to_le_bytes (idiag_inode m)"

definition diag_wf :: "inet_diag_msg \<Rightarrow> bool" where
  "diag_wf m \<longleftrightarrow> length (idiag_src (msg_id m)) = 4 \<and> length (idiag_dst (msg_id m)) = 4
     \<and> length (idiag_cookie (msg_id m)) = 2"

lemma diag_wf_fields:
  assumes "diag_wf m"
  obtains a0 a1 a2 a3 b0 b1 b2 b3 c0 c1 where "idiag_src (msg_id m) = [a0, a1, a2, a3]"
    "idiag_dst (msg_id m) = [b0, b1, b2, b3]" "idiag_cookie (msg_id m) = [c0, c1]"
proof -
  have four: "\<exists>a b c d. xs = [a, b, c, d]" if "length xs = 4" for xs :: "u32 list"
    using that by (auto simp: numeral_eq_Suc length_Suc_conv)
  have two: "\<exists>a b. xs = [a, b]" if "length xs = 2" for xs :: "u32 list"
    using that by (auto simp: numeral_eq_Suc length_Suc_conv)
  from assms four [of "idiag_src (msg_id m)"] four [of "idiag_dst (msg_id m)"]
    two [of "idiag_cookie (msg_id m)"] that show ?thesis
    unfolding diag_wf_def by metis
qed

lemma diag_msg_roundtrip:
  assumes "diag_wf m"
  shows "length (append_diag_msg m) = 72" and "diag_msg_layout (append_diag_msg m) = m"
proof -
  obtain a0 a1 a2 a3 b0 b1 b2 b3 c0 c1 where f: "idiag_src (msg_id m) = [a0, a1, a2, a3]"
    "idiag_dst (msg_id m) = [b0, b1, b2, b3]" "idiag_cookie (msg_id m) = [c0, c1]"
    using assms by (rule diag_wf_fields)
  note layout = append_diag_msg_def append_sock_id_def f u32_to_le_bytes_def u16_to_le_bytes_def
  show "length (append_diag_msg m) = 72" by (simp add: layout)
  have "sock_id_layout (append_diag_msg m) 4 =
      \<lparr>idiag_sport = idiag_sport (msg_id m), idiag_dport = idiag_dport (msg_id m),
       idiag_src = [a0, a1, a2, a3], idiag_dst = [b0, b1, b2, b3],
       idiag_if = idiag_if (msg_id m), idiag_cookie = [c0, c1]\<rparr>"
    by (simp add: sock_id_layout_def layout u32_at_def u16_at_def)
  then have "sock_id_layout (append_diag_msg m) 4 = msg_id m"
    by (simp flip: f)
  then show "diag_msg_layout (append_diag_msg m) = m"
    by (simp add: diag_msg_layout_def) (simp add: layout u32_at_def)
qed

lemma read_struct_prefix:
  "length bs = sz \<Longrightarrow> read_struct sz layout (pre @ bs @ post) (length pre) = Some (layout bs)"
  by (simp add: read_struct_def)

section \<open>Well-formed replies\<close>

text \<open>
  The messages of a reply as the kernel lays them out: header, payload, and padding to four
  bytes. A diagnostic message may carry attributes behind its struct; an error message
  carries the error code and the header of the request; the type of any other message is
  none of those three.
\<close>

datatype nl_message =
    NlDone "u8 list"
  | NlError i32 "u8 list"
  | NlDiag inet_diag_msg "u8 list"
  | NlOther u16 "u8 list"

fun nl_type :: "nl_message \<Rightarrow> u16" where
  "nl_type (NlDone p) = 3"
| "nl_type (NlError e p) = 2"
| "nl_type (NlDiag d p) = 20"
| "nl_type (NlOther t p) = t"

fun nl_payload :: "nl_message \<Rightarrow> u8 list" where
  "nl_payload (NlDone p) = p"
| "nl_payload (NlError e p) = u32_to_le_bytes e @ p"
| "nl_payload (NlDiag d p) = append_diag_msg d @ p"
| "nl_payload (NlOther t p) = p"

fun nl_body_wf :: "nl_message \<Rightarrow> bool" where
  "nl_body_wf (NlDone p) = True"
| "nl_body_wf (NlError e p) = (16 \<le> length p)"
| "nl_body_wf (NlDiag d p) = diag_wf d"
| "nl_body_wf (NlOther t p) = (t \<notin> {2, 3, 20})"

definition nl_wf :: "nl_message \<Rightarrow> bool" where
  "nl_wf msg \<longleftrightarrow> nl_body_wf msg \<and> 16 + length (nl_payload msg) < 2 ^ 32"

definition encode_message :: "u16 \<times> u32 \<times> u32 \<Rightarrow> nl_message \<Rightarrow> u8 list" where
  "encode_message hdr msg =
     (case hdr of (flags, seq, pid) \<Rightarrow>
        append_nlmsghdr \<lparr>nlmsg_len = of_nat (16 + length (nl_payload msg)),
          nlmsg_type = nl_type msg, nlmsg_flags = flags, nlmsg_seq = seq, nlmsg_pid = pid\<rparr>
        @ nl_payload msg @ replicate ((4 - length (nl_payload msg) mod 4) mod 4) 0)"

definition encode_reply :: "((u16 \<times> u32 \<times> u32) \<times> nl_message) list \<Rightarrow> u8 list" where
  "encode_reply msgs = concat (map (\<lambda>(hdr, msg). encode_message hdr msg) msgs)"

text \<open>What the messages say, one after the other.\<close>

fun deliver ::
  "protocol \<Rightarrow> nl_message list \<Rightarrow> socket_map \<Rightarrow> (netlink_error + bool) \<times> socket_map" where
  "deliver kind [] m = (Inr False, m)"
| "deliver kind (NlDone p # msgs) m = (Inr True, m)"
| "deliver kind (NlError e p # msgs) m = (Inl (KernelError (- e)), m)"
| "deliver kind (NlDiag d p # msgs) m =
     (case entry_of_diag d kind of
        Inl err \<Rightarrow> (Inl err, m)
      | Inr entry \<Rightarrow> deliver kind msgs (hm_insert (se_inode entry) entry m))"
| "deliver kind (NlOther t p # msgs) m = deliver kind msgs m"

lemma pad4: "16 + (n + (4 - n mod 4) mod 4) = 4 * ((19 + n) div 4)" for n :: nat
proof -
  have "n mod 4 < 4" by simp
  then consider "n mod 4 = 0" | "n mod 4 = 1" | "n mod 4 = 2" | "n mod 4 = 3" by linarith
  then show ?thesis
  proof cases
    case 1
    then have "16 + (n + 0) = 4 * ((19 + n) div 4)" by presburger
    with 1 show ?thesis by simp
  next
    case 2
    then have "16 + (n + 3) = 4 * ((19 + n) div 4)" by presburger
    with 2 show ?thesis by simp
  next
    case 3
    then have "16 + (n + 2) = 4 * ((19 + n) div 4)" by presburger
    with 3 show ?thesis by simp
  next
    case 4
    then have "16 + (n + 1) = 4 * ((19 + n) div 4)" by presburger
    with 4 show ?thesis by simp
  qed
qed

lemma length_encode_message:
  assumes "nl_wf msg"
  shows "length (encode_message hdr msg) =
     unat (nlmsg_align (of_nat (unat (of_nat (16 + length (nl_payload msg)) :: u32))))"
proof -
  have small: "16 + length (nl_payload msg) < 2 ^ 32" using assms by (simp add: nl_wf_def)
  then have "unat (of_nat (16 + length (nl_payload msg)) :: u32) = 16 + length (nl_payload msg)"
    by (simp add: unat_of_nat del: of_nat_add)
  moreover have "16 + length (nl_payload msg) + 3 < 2 ^ 64" using small by simp
  ultimately have "unat (nlmsg_align (of_nat (unat (of_nat (16 + length (nl_payload msg)) :: u32))))
      = 4 * ((16 + length (nl_payload msg) + 3) div 4)"
    by (simp only: unat_nlmsg_align)
  then show ?thesis
    by (simp add: encode_message_def length_append_nlmsghdr pad4 split: prod.split del: of_nat_add)
qed

lemma message_step_encoded:
  assumes wf: "nl_wf msg"
  shows "message_step (pre @ encode_message hdr msg @ post) kind (length pre) m = Some
    (case msg of
       NlDone p \<Rightarrow> (Return (Inr True), m)
     | NlError e p \<Rightarrow> (Return (Inl (KernelError (- e))), m)
     | NlDiag d p \<Rightarrow>
         (case entry_of_diag d kind of
            Inl err \<Rightarrow> (Return (Inl err), m)
          | Inr entry \<Rightarrow> (Next (length pre + length (encode_message hdr msg)),
              hm_insert (se_inode entry) entry m))
     | NlOther t p \<Rightarrow> (Next (length pre + length (encode_message hdr msg)), m))"
proof -
  obtain flags seq pid where hdr: "hdr = (flags, seq, pid)" by (cases hdr)
  define h where "h = \<lparr>nlmsg_len = of_nat (16 + length (nl_payload msg)), nlmsg_type = nl_type msg,
     nlmsg_flags = flags, nlmsg_seq = seq, nlmsg_pid = pid\<rparr>"
  define padding where "padding = replicate ((4 - length (nl_payload msg) mod 4) mod 4) (0 :: u8)"
  define bs where "bs = pre @ encode_message hdr msg @ post"
  have enc: "encode_message hdr msg = append_nlmsghdr h @ nl_payload msg @ padding"
    by (simp add: encode_message_def hdr h_def padding_def)
  have small: "16 + length (nl_payload msg) < 2 ^ 32" using wf by (simp add: nl_wf_def)
  then have len: "unat (nlmsg_len h) = 16 + length (nl_payload msg)"
    by (simp add: h_def unat_of_nat del: of_nat_add)
  then have nz: "nlmsg_len h \<noteq> 0" by (metis add_eq_0_iff_both_eq_0 unat_0 zero_neq_numeral)
  have header: "read_struct SIZE_NLMSGHDR nlmsghdr_layout bs (length pre) = Some h"
    using read_struct_prefix [OF length_append_nlmsghdr, of nlmsghdr_layout pre h]
    by (simp add: bs_def enc nlmsghdr_roundtrip SIZE_NLMSGHDR_def)
  have payload: "slice bs (length pre + 16) (length pre + 16 + length (nl_payload msg))
      = Some (nl_payload msg)"
    by (simp add: slice_def bs_def enc length_append_nlmsghdr)
  have room: "\<not> length bs < length pre + (16 + length (nl_payload msg))"
    by (simp add: bs_def enc length_append_nlmsghdr)
  have next_off: "unat (nlmsg_align (of_nat (16 + length (nl_payload msg)))) = length (encode_message hdr msg)"
    using length_encode_message [OF wf, of hdr] small by (simp add: unat_of_nat del: of_nat_add)
  have ty: "nlmsg_type h = nl_type msg" by (simp add: h_def)
  have body: "nl_body_wf msg" using wf by (simp add: nl_wf_def)
  have "message_step bs kind (length pre) m =
      Some (if nl_type msg = 3 then (Return (Inr True), m)
        else if nl_type msg = 2 then
          (case parse_kernel_error (nl_payload msg) of
             Inl e \<Rightarrow> (Return (Inl e), m) | Inr k \<Rightarrow> (Return (Inl (KernelError k)), m))
        else if nl_type msg = 20 then
          (case parse_inet_diag_message (nl_payload msg) kind of
             Inl e \<Rightarrow> (Return (Inl e), m)
           | Inr entry \<Rightarrow> (Next (length pre + length (encode_message hdr msg)),
               hm_insert (se_inode entry) entry m))
        else (Next (length pre + length (encode_message hdr msg)), m))"
    using room payload unfolding message_step_def header option.case
    by (simp add: nz len Let_def ty netlink_types next_off SIZE_NLMSGHDR_def
        del: of_nat_add)
  then show ?thesis
    unfolding bs_def [symmetric] using body
    by (cases msg)
       (simp_all add: parse_kernel_error_def parse_inet_diag_message_def
         read_struct_def diag_msg_roundtrip struct_sizes nlmsgerr_layout_def u32_at_def
         u32_to_le_bytes_def)
qed

lemma encode_message_room: "nl_wf msg \<Longrightarrow> 16 \<le> length (encode_message hdr msg)"
  by (simp add: encode_message_def length_append_nlmsghdr split: prod.split)

lemma parse_messages_encoded:
  "\<forall>(hdr, msg) \<in> set msgs. nl_wf msg \<Longrightarrow>
   parse_messages (pre @ encode_reply msgs) kind (length pre) m = Some (deliver kind (map snd msgs) m)"
proof (induction msgs arbitrary: pre m)
  case Nil
  then show ?case by (subst parse_messages.simps) (simp add: encode_reply_def SIZE_NLMSGHDR_def)
next
  case (Cons x msgs)
  obtain hdr msg where x: "x = (hdr, msg)" by (cases x)
  from Cons.prems x have wf: "nl_wf msg" by simp
  let ?pre = "pre @ encode_message hdr msg"
  have split: "pre @ encode_reply (x # msgs) = pre @ encode_message hdr msg @ encode_reply msgs"
    by (simp add: encode_reply_def x)
  have next_IH: "parse_messages (pre @ encode_message hdr msg @ encode_reply msgs) kind
      (length pre + length (encode_message hdr msg)) m' = Some (deliver kind (map snd msgs) m')" for m'
    using Cons.IH [of ?pre m'] Cons.prems by simp
  note st = message_step_encoded [OF wf, of pre hdr "encode_reply msgs" kind m]
  show ?case
    unfolding split using encode_message_room [OF wf, of hdr] st next_IH
    by (subst parse_messages.simps, cases msg) (simp_all add: SIZE_NLMSGHDR_def x split: sum.split)
qed

section \<open>The dump loop\<close>

lemma parse_response_messages_returns: "\<exists>r m'. parse_response_messages bs kind m = Some (r, m')"
  using parse_messages_returns [of bs kind 0 m] by (auto simp: parse_response_messages_def)

lemma recv_loop_ok:
  "sockets_ok m \<Longrightarrow> kind = Tcp \<or> kind = Udp \<Longrightarrow> recv_loop kind rs m = Some (r, rs', m') \<Longrightarrow> sockets_ok m'"
proof (induction kind rs m rule: recv_loop.induct)
  case (3 kind bytes rs m)
  obtain x m1 where p: "parse_response_messages bytes kind m = Some (x, m1)"
    using parse_response_messages_returns by blast
  then have ok: "sockets_ok m1"
    using "3.prems"(1,2) by (auto simp: parse_response_messages_def dest: parse_messages_ok)
  show ?case
  proof (cases "bytes = [] \<or> x \<noteq> Inr False")
    case True
    with "3.prems" p ok show ?thesis by (auto split: if_splits sum.splits)
  next
    case False
    with "3.IH" [OF _ p refl, of False] "3.prems" p ok show ?thesis by auto
  qed
qed auto

lemma query_all_ok:
  "sockets_ok m \<Longrightarrow> \<forall>(f, p, k) \<in> set qs. k = Tcp \<or> k = Udp \<Longrightarrow> query_all send qs rs m = Some (Inr m')
   \<Longrightarrow> sockets_ok m'"
proof (induction send qs rs m rule: query_all.induct)
  case (2 send family prot kind qs rs m)
  from "2.prems"(3) obtain r rs1 m1 where
    q: "query_family_protocol send family prot kind rs m = Some (r, rs1, m1)"
    by (auto simp: bind_eq_Some_conv)
  with "2.prems"(3) have r: "r = Inr ()" by (cases r) auto
  with q "2.prems"(3) have rest: "query_all send qs rs1 m1 = Some (Inr m')" by simp
  have "sockets_ok m1"
    using q "2.prems"(1,2)
    by (auto simp: query_family_protocol_def split: sum.splits option.splits dest: recv_loop_ok)
  with "2.IH" [OF q refl refl r] "2.prems"(2) rest show ?case by simp
qed simp

lemma query_sockets_ok: "query_sockets env = Some (Inr m) \<Longrightarrow> sockets_ok m"
  using query_all_ok [of "[]" dump_queries "nl_send env" "nl_recv env" m]
  by (auto simp: query_sockets_def dump_queries_def split: option.splits)

section \<open>Properties of the client\<close>

text \<open>C22. Whatever bytes the kernel sends, the parser of one reply returns (it does not
  panic on a truncated, overlong or overlapping message and its loop ends), and the socket
  map it leaves, also when it fails half way, holds one well-formed entry per inode.\<close>

theorem netlink_reply_any_bytes:
  assumes "sockets_ok m" and "kind = Tcp \<or> kind = Udp"
  shows "\<exists>result m'. parse_response_messages bs kind m = Some (result, m') \<and> sockets_ok m'"
  using parse_response_messages_returns [of bs kind m] parse_messages_ok [OF assms]
  by (auto simp: parse_response_messages_def)

theorem netlink_reply_any_bytes_witness:
  "\<exists>result m'. parse_response_messages [16, 0, 0, 0, 20, 0, 0, 0, 1, 0, 0, 0, 0, 0, 0, 0] Udp []
     = Some (result, m') \<and> sockets_ok m'"
  by (rule netlink_reply_any_bytes) simp_all

lemma parse_reply_encoded:
  "\<forall>(hdr, msg) \<in> set msgs. nl_wf msg \<Longrightarrow>
   parse_response_messages (encode_reply msgs) kind m = Some (deliver kind (map snd msgs) m)"
  using parse_messages_encoded [of msgs "[]"] by (simp add: parse_response_messages_def)

text \<open>C13. A reply made of well-formed messages, each with any header flags, sequence number,
  attributes and padding, is read as the messages say: entries are inserted in order under
  their inode, messages of other types are skipped, and the first DONE, error or
  undecodable message ends the reply.\<close>

theorem netlink_reply_roundtrip:
  assumes "\<forall>(hdr, msg) \<in> set msgs. nl_wf msg"
  shows "parse_response_messages (encode_reply msgs) kind m = Some (deliver kind (map snd msgs) m)"
  using assms by (rule parse_reply_encoded)

theorem netlink_reply_roundtrip_witness:
  "parse_response_messages (encode_reply [((2, 1, 0), NlOther 1 [7]), ((2, 1, 0), NlDone [0, 0, 0, 0])])
     Tcp [] = Some (Inr True, [])"
  using netlink_reply_roundtrip
    [of "[((2, 1, 0), NlOther 1 [7]), ((2, 1, 0), NlDone [0, 0, 0, 0])]" Tcp "[]"]
  by (simp add: nl_wf_def)

subsection \<open>The four dumps\<close>

text \<open>
  A dump as the kernel sends it: datagrams of diagnostic messages, the last of them closed
  by a DONE message.
\<close>

type_synonym diag_item = "(u16 \<times> u32 \<times> u32) \<times> inet_diag_msg \<times> u8 list"

record dump_reply =
  dr_data :: "diag_item list list"
  dr_last :: "diag_item list"
  dr_done :: "(u16 \<times> u32 \<times> u32) \<times> u8 list"

definition item_message :: "diag_item \<Rightarrow> (u16 \<times> u32 \<times> u32) \<times> nl_message" where
  "item_message item = (case item of (hdr, d, attrs) \<Rightarrow> (hdr, NlDiag d attrs))"

definition done_message :: "(u16 \<times> u32 \<times> u32) \<times> u8 list \<Rightarrow> (u16 \<times> u32 \<times> u32) \<times> nl_message" where
  "done_message d = (fst d, NlDone (snd d))"

definition item_wf :: "diag_item \<Rightarrow> bool" where
  "item_wf item \<longleftrightarrow> nl_wf (snd (item_message item)) \<and> idiag_family (fst (snd item)) \<in> {2, 10}"

definition dump_wf :: "dump_reply \<Rightarrow> bool" where
  "dump_wf r \<longleftrightarrow> (\<forall>items \<in> set (dr_data r). items \<noteq> [] \<and> list_all item_wf items)
     \<and> list_all item_wf (dr_last r) \<and> nl_wf (snd (done_message (dr_done r)))"

definition dump_datagrams :: "dump_reply \<Rightarrow> recv_result list" where
  "dump_datagrams r = map (\<lambda>items. Datagram (encode_reply (map item_message items))) (dr_data r)
     @ [Datagram (encode_reply (map item_message (dr_last r) @ [done_message (dr_done r)]))]"

definition item_entries :: "protocol \<Rightarrow> diag_item list \<Rightarrow> socket_entry list" where
  "item_entries kind items = concat (map
     (\<lambda>item. case entry_of_diag (fst (snd item)) kind of Inl e \<Rightarrow> [] | Inr entry \<Rightarrow> [entry]) items)"

definition dump_entries :: "protocol \<Rightarrow> dump_reply \<Rightarrow> socket_entry list" where
  "dump_entries kind r = item_entries kind (concat (dr_data r) @ dr_last r)"

definition insert_entries :: "socket_entry list \<Rightarrow> socket_map \<Rightarrow> socket_map" where
  "insert_entries es m = fold (\<lambda>e. hm_insert (se_inode e) e) es m"

lemma item_entry:
  "item_wf item \<Longrightarrow> \<exists>entry. entry_of_diag (fst (snd item)) kind = Inr entry"
  by (auto simp: item_wf_def entry_of_diag_def socket_addr_from_diag_def Let_def
      AF_INET_FAMILY_def AF_INET6_FAMILY_def)

lemma deliver_items:
  "list_all item_wf items \<Longrightarrow>
   deliver kind (map snd (map item_message items) @ msgs) m
     = deliver kind msgs (insert_entries (item_entries kind items) m)"
proof (induction items arbitrary: m)
  case Nil
  then show ?case by (simp add: item_entries_def insert_entries_def)
next
  case (Cons item items)
  obtain hdr d attrs where item: "item = (hdr, d, attrs)" by (cases item)
  from Cons.prems item obtain entry where "entry_of_diag d kind = Inr entry"
    using item_entry [of item kind] by auto
  with Cons show ?case
    by (simp add: item item_message_def item_entries_def insert_entries_def)
qed

lemma items_nl_wf: "list_all item_wf items \<Longrightarrow> \<forall>(hdr, msg) \<in> set (map item_message items). nl_wf msg"
  by (induction items) (auto simp: item_wf_def)

lemma encode_reply_nonempty: "msgs \<noteq> [] \<Longrightarrow> encode_reply msgs \<noteq> []"
  by (cases msgs) (auto simp: encode_reply_def encode_message_def append_nlmsghdr_def
      u32_to_le_bytes_def split: prod.splits)

lemma recv_loop_data:
  "\<forall>items \<in> set data. items \<noteq> [] \<and> list_all item_wf items \<Longrightarrow>
   recv_loop kind (map (\<lambda>items. Datagram (encode_reply (map item_message items))) data @ rs) m
     = recv_loop kind rs (insert_entries (item_entries kind (concat data)) m)"
proof (induction data arbitrary: m)
  case Nil
  then show ?case by (simp add: insert_entries_def item_entries_def)
next
  case (Cons items data)
  then have wf: "list_all item_wf items" and ne: "items \<noteq> []" by auto
  have "parse_response_messages (encode_reply (map item_message items)) kind m
      = Some (Inr False, insert_entries (item_entries kind items) m)"
    using parse_reply_encoded [OF items_nl_wf [OF wf]] deliver_items [OF wf, of kind "[]"]
    by simp
  with Cons ne show ?case
    by (simp add: encode_reply_nonempty) (simp add: insert_entries_def item_entries_def)
qed

lemma recv_loop_dump:
  assumes "dump_wf r"
  shows "recv_loop kind (dump_datagrams r @ rs) m
    = Some (Inr (), rs, insert_entries (dump_entries kind r) m)"
proof -
  let ?m = "insert_entries (item_entries kind (concat (dr_data r))) m"
  let ?msgs = "map item_message (dr_last r) @ [done_message (dr_done r)]"
  from assms have wf: "list_all item_wf (dr_last r)"
    and data: "\<forall>items \<in> set (dr_data r). items \<noteq> [] \<and> list_all item_wf items"
    and fin: "nl_wf (snd (done_message (dr_done r)))"
    by (simp_all add: dump_wf_def)
  have "\<forall>(hdr, msg) \<in> set ?msgs. nl_wf msg"
    using items_nl_wf [OF wf] fin by (auto simp: done_message_def)
  from parse_reply_encoded [OF this] deliver_items [OF wf, of kind "[snd (done_message (dr_done r))]"]
  have "parse_response_messages (encode_reply ?msgs) kind ?m
      = Some (Inr True, insert_entries (item_entries kind (dr_last r)) ?m)"
    by (simp add: done_message_def)
  then show ?thesis
    by (simp add: dump_datagrams_def recv_loop_data [OF data] encode_reply_nonempty)
       (simp add: dump_entries_def insert_entries_def item_entries_def)
qed

lemma build_request_Inr: "\<exists>bs. build_inet_diag_request f p = Inr bs"
  by (simp add: build_inet_diag_request_def append_nlmsghdr_def u32_to_le_bytes_def Let_def)

lemma query_all_dumps:
  "length dumps = length qs \<Longrightarrow> list_all dump_wf dumps \<Longrightarrow>
   query_all (\<lambda>_. None) qs (concat (map dump_datagrams dumps) @ rs) m
     = Some (Inr (insert_entries
         (concat (map2 (\<lambda>(f, p, kind) r. dump_entries kind r) qs dumps)) m))"
proof (induction qs arbitrary: dumps m)
  case Nil
  then show ?case by (simp add: insert_entries_def)
next
  case (Cons q qs)
  obtain f p kind where q: "q = (f, p, kind)" by (cases q)
  from Cons.prems obtain r rest where dumps: "dumps = r # rest" by (cases dumps) auto
  obtain bs where "build_inet_diag_request f p = Inr bs" using build_request_Inr by blast
  with Cons show ?case
    by (simp add: q dumps query_family_protocol_def recv_loop_dump)
       (simp add: insert_entries_def)
qed

definition dumped_entries :: "dump_reply list \<Rightarrow> socket_entry list" where
  "dumped_entries dumps = concat (map2 dump_entries [Tcp, Udp, Tcp, Udp] dumps)"

lemma query_sockets_dumps:
  assumes "length dumps = 4" and "list_all dump_wf dumps"
  shows "query_sockets \<lparr>nl_open = None, nl_send = \<lambda>_. None,
    nl_recv = concat (map dump_datagrams dumps) @ later\<rparr> = Some (Inr (insert_entries (dumped_entries dumps) []))"
proof -
  let ?es = "concat (map2 (\<lambda>(f, p, kind) r. dump_entries kind r) dump_queries dumps)"
  from assms(1) obtain a b c d where dumps: "dumps = [a, b, c, d]"
    by (auto simp: numeral_eq_Suc length_Suc_conv)
  then have es: "?es = dumped_entries dumps"
    by (simp add: dump_queries_def dumped_entries_def)
  then show ?thesis
    using query_all_dumps [of dumps dump_queries later "[]"] assms
    by (simp add: query_sockets_def dump_queries_def)
qed

lemma insert_entries_get:
  "hm_get (insert_entries es []) inode = find (\<lambda>e. se_inode e = inode) (rev es)"
  unfolding insert_entries_def
  using hm.get_put_all [of "[]" se_inode "\<lambda>e. e" es inode] by (simp split: option.splits)

text \<open>C23. When the kernel answers each of the four dumps (TCP and UDP over IPv4, then over
  IPv6) with well-formed datagrams closed by a DONE message, \<open>query_sockets\<close> returns, and
  the map it returns has under every inode the last entry the kernel sent with that inode:
  entries that share an inode (those the kernel reports with inode zero among them) are
  merged into one.\<close>

theorem query_sockets_exact:
  assumes "length dumps = 4" and "list_all dump_wf dumps"
  shows "\<exists>m. query_sockets \<lparr>nl_open = None, nl_send = \<lambda>_. None,
        nl_recv = concat (map dump_datagrams dumps) @ later\<rparr> = Some (Inr m)
    \<and> (\<forall>inode. hm_get m inode = find (\<lambda>e. se_inode e = inode)
        (rev (concat (map2 dump_entries [Tcp, Udp, Tcp, Udp] dumps))))"
  using query_sockets_dumps [OF assms, of later] insert_entries_get
  by (auto simp: dumped_entries_def)

definition empty_dump :: dump_reply where
  "empty_dump = \<lparr>dr_data = [], dr_last = [], dr_done = ((2, 1, 0), [0, 0, 0, 0])\<rparr>"

definition dns_socket :: inet_diag_msg where
  "dns_socket = \<lparr>idiag_family = 2, idiag_state = 7, idiag_timer = 0, idiag_retrans = 0,
     msg_id = \<lparr>idiag_sport = 0x3500, idiag_dport = 0, idiag_src = [0x0100007F, 0, 0, 0],
       idiag_dst = [0, 0, 0, 0], idiag_if = 0, idiag_cookie = [0, 0]\<rparr>,
     idiag_expires = 0, idiag_rqueue = 0, idiag_wqueue = 0, idiag_uid = 102, idiag_inode = 4711\<rparr>"

theorem query_sockets_exact_witness:
  "\<exists>m. query_sockets \<lparr>nl_open = None, nl_send = \<lambda>_. None,
        nl_recv = concat (map dump_datagrams [empty_dump,
          empty_dump\<lparr>dr_last := [((2, 1, 0), dns_socket, [])]\<rparr>, empty_dump, empty_dump]) @ []\<rparr>
      = Some (Inr m)
    \<and> (\<forall>inode. hm_get m inode = find (\<lambda>e. se_inode e = inode)
        (rev (concat (map2 dump_entries [Tcp, Udp, Tcp, Udp] [empty_dump,
          empty_dump\<lparr>dr_last := [((2, 1, 0), dns_socket, [])]\<rparr>, empty_dump, empty_dump]))))"
  by (rule query_sockets_exact)
     (simp_all add: dump_wf_def empty_dump_def item_wf_def item_message_def done_message_def
       nl_wf_def diag_wf_def dns_socket_def diag_msg_roundtrip(1) del: append_diag_msg_def)

text \<open>The request built for a dump is a 72-byte message the kernel can read back: its
  header announces its own length, the SOCK_DIAG type, and a dump request; the body names
  the address family and the protocol and asks for sockets in every state.\<close>

theorem inet_diag_request_layout:
  "\<exists>bytes. build_inet_diag_request family prot = Inr bytes \<and> length bytes = 72
     \<and> nlmsghdr_layout (take 16 bytes) = \<lparr>nlmsg_len = 72, nlmsg_type = 20, nlmsg_flags = 0x301,
          nlmsg_seq = 1, nlmsg_pid = 0\<rparr>
     \<and> bytes ! 16 = family \<and> bytes ! 17 = prot \<and> u32_at bytes 20 = - 1
     \<and> sock_id_layout bytes 24 = \<lparr>idiag_sport = 0, idiag_dport = 0, idiag_src = [0, 0, 0, 0],
          idiag_dst = [0, 0, 0, 0], idiag_if = 0, idiag_cookie = [0, 0]\<rparr>"
proof -
  define bytes where "bytes = [72, 0, 0, 0, 20, 0, 1, 3, 1, 0, 0, 0, 0, 0, 0, 0, family, prot, 0, 0,
     255, 255, 255, 255, 0, 0, 0, 0, 0, 0, 0, 0, 0, 0, 0, 0, 0, 0, 0, 0, 0, 0, 0, 0, 0, 0, 0, 0,
     0, 0, 0, 0, 0, 0, 0, 0, 0, 0, 0, 0, 0, 0, 0, 0, 0, 0, 0, 0, 0, 0, 0, 0]"
  have "(- 1 :: u32) = 4294967295" by simp
  then have ones: "u32_to_le_bytes (- 1) = [255, 255, 255, 255]"
    by (simp only:) (simp add: u32_to_le_bytes_def)
  have zeros: "u32_to_le_bytes 0 = [0, 0, 0, 0]" "u32_to_le_bytes 1 = [1, 0, 0, 0]"
    and len72: "u32_to_le_bytes 72 = [72, 0, 0, 0]"
    by (simp_all add: u32_to_le_bytes_def)
  have "build_inet_diag_request family prot = Inr bytes"
    using ones by (simp add: build_inet_diag_request_def Let_def append_diag_req_def append_nlmsghdr_def
        append_sock_id_def u16_to_le_bytes_def bytes_def zeros len72
        REQUEST_SOCKET_STATES_ALL_def struct_sizes netlink_types NLMSG_FLAG_DUMP_REQUEST_def
        NLM_F_REQUEST_FLAG_def NLM_F_DUMP_FLAG_def NETLINK_REQUEST_SEQUENCE_def)
  moreover have "length bytes = 72" by (simp add: bytes_def)
  moreover have "nlmsghdr_layout (take 16 bytes) = \<lparr>nlmsg_len = 72, nlmsg_type = 20,
      nlmsg_flags = 0x301, nlmsg_seq = 1, nlmsg_pid = 0\<rparr>"
    by (simp add: bytes_def nlmsghdr_layout_def u32_at_def u16_at_def u32_from_le_bytes_def
        u16_from_le_bytes_def)
  moreover have "bytes ! 16 = family" "bytes ! 17 = prot" "u32_at bytes 20 = - 1"
    by (simp_all add: bytes_def u32_at_def u32_from_le_bytes_def)
  moreover have "sock_id_layout bytes 24 = \<lparr>idiag_sport = 0, idiag_dport = 0,
      idiag_src = [0, 0, 0, 0], idiag_dst = [0, 0, 0, 0], idiag_if = 0, idiag_cookie = [0, 0]\<rparr>"
    by (simp add: bytes_def sock_id_layout_def u32_at_def u16_at_def u32_from_le_bytes_def
        u16_from_le_bytes_def)
  ultimately show ?thesis by blast
qed



end
