(* ===== verification/Proc_Fallback.thy ===== *)
theory Proc_Fallback
  imports Netlink_Wire Rust_Text
begin

text \<open>
  The fallback of crates/resolver/src/proc_fallback.rs: it reads the socket tables the
  kernel prints under /proc/net. Reading a file is a parameter that gives its text or an
  error. \<open>None\<close> in a result is a panic (of a string slice), which does not happen.

  The main results: the tables never make the parser panic; what it returns satisfies the
  same contract as the netlink client's result; and for the same kernel socket the two
  sources give the same entry, up to the uid and the state name of a UDP socket.
\<close>

section \<open>The parser\<close>

definition PROC_NET_MIN_COLUMNS :: nat where "PROC_NET_MIN_COLUMNS = 10"
definition PROC_IPV4_HEX_LEN :: nat where "PROC_IPV4_HEX_LEN = 8"
definition PROC_IPV6_HEX_LEN :: nat where "PROC_IPV6_HEX_LEN = 32"
definition UNKNOWN_UID :: u32 where "UNKNOWN_UID = 0"

lemmas proc_constants =
  PROC_NET_MIN_COLUMNS_def PROC_IPV4_HEX_LEN_def PROC_IPV6_HEX_LEN_def UNKNOWN_UID_def

datatype fallback_error = FileOpen string string | ParseLine string string

text \<open>The loop over the four words of an IPv6 address.\<close>

fun proc_ipv6_words :: "string \<Rightarrow> nat list \<Rightarrow> u8 list option option" where
  "proc_ipv6_words ip_hex [] = Some (Some [])"
| "proc_ipv6_words ip_hex (word_index # is) = do {
     let start = word_index * 8;
     word_hex \<leftarrow> slice ip_hex start (start + 8);
     (case from_str_radix 16 word_hex :: u32 option of
        None \<Rightarrow> Some None
      | Some raw_word \<Rightarrow> do {
          rest \<leftarrow> proc_ipv6_words ip_hex is;
          Some (map_option (\<lambda>bytes. u32_to_le_bytes raw_word @ bytes) rest)
        })
   }"

definition parse_proc_socket_addr :: "string \<Rightarrow> bool \<Rightarrow> socket_addr option option" where
  "parse_proc_socket_addr endpoint_text is_ipv4 =
     (case split_by (\<lambda>c. c = CHR '':'') endpoint_text of
        ip_hex # port_hex # _ \<Rightarrow>
          (case from_str_radix 16 port_hex :: u16 option of
             None \<Rightarrow> Some None
           | Some port \<Rightarrow>
               if is_ipv4 then
                 if length ip_hex \<noteq> PROC_IPV4_HEX_LEN then Some None
                 else Some (case from_str_radix 16 ip_hex :: u32 option of
                   None \<Rightarrow> None
                 | Some raw \<Rightarrow>
                     (case u32_to_le_bytes raw of
                        [a, b, c, d] \<Rightarrow> Some (V4 a b c d, port)
                      | _ \<Rightarrow> None))
               else if length ip_hex \<noteq> PROC_IPV6_HEX_LEN then Some None
               else do {
                 bytes \<leftarrow> proc_ipv6_words ip_hex [0, 1, 2, 3];
                 Some (map_option (\<lambda>os. (V6 os, port)) bytes)
               })
      | _ \<Rightarrow> Some None)"

definition parse_tcp_state :: "string \<Rightarrow> protocol \<Rightarrow> string" where
  "parse_tcp_state state_hex prot =
     (if prot \<noteq> Tcp then ''UNCONN''
      else (case from_str_radix 16 state_hex :: u8 option of
              None \<Rightarrow> ''UNKNOWN''
            | Some v \<Rightarrow>
                if v = 0x01 then ''ESTABLISHED'' else if v = 0x02 then ''SYN_SENT''
                else if v = 0x03 then ''SYN_RECV'' else if v = 0x04 then ''FIN_WAIT1''
                else if v = 0x05 then ''FIN_WAIT2'' else if v = 0x06 then ''TIME_WAIT''
                else if v = 0x07 then ''CLOSE'' else if v = 0x08 then ''CLOSE_WAIT''
                else if v = 0x09 then ''LAST_ACK'' else if v = 0x0A then ''LISTEN''
                else if v = 0x0B then ''CLOSING'' else ''UNKNOWN''))"

text \<open>One row of a table: an error, or the entry to insert.\<close>

definition proc_row ::
  "string \<Rightarrow> protocol \<Rightarrow> bool \<Rightarrow> string \<Rightarrow> (fallback_error + socket_entry) option" where
  "proc_row file_path prot is_ipv4 line =
     (let columns = split_whitespace line; bad = Inl (ParseLine file_path line) in
      if length columns < PROC_NET_MIN_COLUMNS then Some bad
      else do {
        col1 \<leftarrow> idx columns 1;
        local_addr \<leftarrow> parse_proc_socket_addr col1 is_ipv4;
        (case local_addr of
           None \<Rightarrow> Some bad
         | Some local_addr \<Rightarrow> do {
             col2 \<leftarrow> idx columns 2;
             remote_addr \<leftarrow> parse_proc_socket_addr col2 is_ipv4;
             (case remote_addr of
                None \<Rightarrow> Some bad
              | Some remote_addr \<Rightarrow> do {
                  col3 \<leftarrow> idx columns 3;
                  col9 \<leftarrow> idx columns 9;
                  Some (case parse_dec col9 :: u64 option of
                    None \<Rightarrow> bad
                  | Some inode \<Rightarrow>
                      Inr \<lparr>se_inode = inode, se_local_addr = local_addr,
                           se_remote_addr = remote_addr, se_state = parse_tcp_state col3 prot,
                           se_uid = UNKNOWN_UID, se_protocol = prot\<rparr>)
                })
           })
      })"

fun proc_rows ::
  "string \<Rightarrow> protocol \<Rightarrow> bool \<Rightarrow> string list \<Rightarrow> socket_map \<Rightarrow> (fallback_error + socket_map) option" where
  "proc_rows file_path prot is_ipv4 [] m = Some (Inr m)"
| "proc_rows file_path prot is_ipv4 (line # lines) m = do {
     row \<leftarrow> proc_row file_path prot is_ipv4 line;
     (case row of
        Inl e \<Rightarrow> Some (Inl e)
      | Inr entry \<Rightarrow> proc_rows file_path prot is_ipv4 lines (hm_insert (se_inode entry) entry m))
   }"

definition read_proc_file ::
  "(string \<Rightarrow> string + string) \<Rightarrow> string \<Rightarrow> protocol \<Rightarrow> bool \<Rightarrow> socket_map
   \<Rightarrow> (fallback_error + socket_map) option" where
  "read_proc_file read_to_string file_path prot is_ipv4 m =
     (case read_to_string file_path of
        Inl source \<Rightarrow> Some (Inl (FileOpen file_path source))
      | Inr content \<Rightarrow> proc_rows file_path prot is_ipv4 (drop 1 (str_lines content)) m)"

fun read_proc_files ::
  "(string \<Rightarrow> string + string) \<Rightarrow> (string \<times> protocol \<times> bool) list \<Rightarrow> socket_map
   \<Rightarrow> (fallback_error + socket_map) option" where
  "read_proc_files read_to_string [] m = Some (Inr m)"
| "read_proc_files read_to_string ((file_path, prot, is_ipv4) # fs) m = do {
     r \<leftarrow> read_proc_file read_to_string file_path prot is_ipv4 m;
     (case r of Inl e \<Rightarrow> Some (Inl e) | Inr m \<Rightarrow> read_proc_files read_to_string fs m)
   }"

definition proc_net_files :: "(string \<times> protocol \<times> bool) list" where
  "proc_net_files = [(''/proc/net/tcp'', Tcp, True), (''/proc/net/tcp6'', Tcp, False),
     (''/proc/net/udp'', Udp, True), (''/proc/net/udp6'', Udp, False)]"

definition read_proc_net :: "(string \<Rightarrow> string + string) \<Rightarrow> (fallback_error + socket_map) option" where
  "read_proc_net read_to_string = read_proc_files read_to_string proc_net_files []"

section \<open>Any text\<close>

lemma proc_ipv6_words_returns:
  "length s = 32 \<Longrightarrow> set is \<subseteq> {0..3} \<Longrightarrow>
   \<exists>r. proc_ipv6_words s is = Some r \<and> (\<forall>bs. r = Some bs \<longrightarrow> length bs = 4 * length is)"
proof (induction "is")
  case (Cons i "is")
  then obtain r where r: "proc_ipv6_words s is = Some r" "\<forall>bs. r = Some bs \<longrightarrow> length bs = 4 * length is"
    by auto
  from Cons.prems have "i \<le> 3" by simp
  with Cons.prems r show ?case
    by (auto simp: Let_def u32_to_le_bytes_def split: option.splits)
qed simp

lemma parse_proc_socket_addr_returns:
  "\<exists>r. parse_proc_socket_addr s v4 = Some r \<and>
     (\<forall>a. r = Some a \<longrightarrow> (v4 \<and> (\<exists>p q r s. fst a = V4 p q r s)) \<or> (\<not> v4 \<and> (\<exists>os. fst a = V6 os \<and> length os = 16)))"
proof -
  have "\<exists>r. proc_ipv6_words h [0, 1, 2, 3] = Some r \<and> (\<forall>bs. r = Some bs \<longrightarrow> length bs = 16)"
    if "length h = 32" for h
    using proc_ipv6_words_returns [of h "[0, 1, 2, 3]"] that by auto
  then show ?thesis
    by (fastforce simp: parse_proc_socket_addr_def proc_constants u32_to_le_bytes_def
        split: list.splits option.splits)
qed

lemma proc_row_ok:
  assumes "prot = Tcp \<or> prot = Udp"
  shows "\<exists>r. proc_row f prot v4 line = Some r \<and> (\<forall>e. r = Inr e \<longrightarrow> entry_ok e)"
proof (cases "length (split_whitespace line) < PROC_NET_MIN_COLUMNS")
  case True
  then show ?thesis by (simp add: proc_row_def)
next
  case False
  let ?c = "split_whitespace line"
  have len: "1 < length ?c" "2 < length ?c" "3 < length ?c" "9 < length ?c"
    using False by (simp_all add: proc_constants)
  obtain l r where l: "parse_proc_socket_addr (?c ! 1) v4 = Some l"
      "\<forall>a. l = Some a \<longrightarrow> (v4 \<and> (\<exists>p q r s. fst a = V4 p q r s)) \<or> (\<not> v4 \<and> (\<exists>os. fst a = V6 os \<and> length os = 16))"
    and r: "parse_proc_socket_addr (?c ! 2) v4 = Some r"
      "\<forall>a. r = Some a \<longrightarrow> (v4 \<and> (\<exists>p q r s. fst a = V4 p q r s)) \<or> (\<not> v4 \<and> (\<exists>os. fst a = V6 os \<and> length os = 16))"
    using parse_proc_socket_addr_returns [of "?c ! 1" v4] parse_proc_socket_addr_returns [of "?c ! 2" v4]
    by blast
  show ?thesis
  proof (cases l)
    case None
    with l False len show ?thesis by (simp add: proc_row_def Let_def)
  next
    case (Some a)
    show ?thesis
    proof (cases r)
      case None
      with l r False len \<open>l = Some a\<close> show ?thesis by (simp add: proc_row_def Let_def)
    next
      case (Some b)
      with l r False len assms \<open>l = Some a\<close> show ?thesis
        by (auto simp: proc_row_def Let_def entry_ok_def split: option.splits)
    qed
  qed
qed

lemma proc_rows_ok:
  "prot = Tcp \<or> prot = Udp \<Longrightarrow> sockets_ok m \<Longrightarrow>
   \<exists>r. proc_rows f prot v4 lines m = Some r \<and> (\<forall>m'. r = Inr m' \<longrightarrow> sockets_ok m')"
proof (induction lines arbitrary: m)
  case (Cons line lines)
  obtain r where r: "proc_row f prot v4 line = Some r" "\<forall>e. r = Inr e \<longrightarrow> entry_ok e"
    using proc_row_ok [OF Cons.prems(1)] by blast
  show ?case
  proof (cases r)
    case (Inl e)
    with r show ?thesis by simp
  next
    case (Inr e)
    with r Cons.prems(2) have "sockets_ok (hm_insert (se_inode e) e m)"
      by (simp add: sockets_ok_insert)
    from Cons.IH [OF Cons.prems(1) this] r Inr show ?thesis by simp
  qed
qed simp

lemma read_proc_file_ok:
  "prot = Tcp \<or> prot = Udp \<Longrightarrow> sockets_ok m \<Longrightarrow>
   \<exists>r. read_proc_file rd f prot v4 m = Some r \<and> (\<forall>m'. r = Inr m' \<longrightarrow> sockets_ok m')"
  by (cases "rd f") (simp_all add: read_proc_file_def proc_rows_ok)

lemma read_proc_files_ok:
  "\<forall>(f, prot, v4) \<in> set fs. prot = Tcp \<or> prot = Udp \<Longrightarrow> sockets_ok m \<Longrightarrow>
   \<exists>r. read_proc_files rd fs m = Some r \<and> (\<forall>m'. r = Inr m' \<longrightarrow> sockets_ok m')"
proof (induction fs arbitrary: m)
  case (Cons x fs)
  obtain f prot v4 where x: "x = (f, prot, v4)" by (cases x)
  with Cons.prems(1) have k: "prot = Tcp \<or> prot = Udp" by simp
  obtain r where r: "read_proc_file rd f prot v4 m = Some r" "\<forall>m'. r = Inr m' \<longrightarrow> sockets_ok m'"
    using read_proc_file_ok [OF k Cons.prems(2)] by blast
  with Cons x show ?case by (cases r) auto
qed simp


section \<open>The tables the kernel prints\<close>

text \<open>
  The kernel prints the words of an address as it holds them in memory, in eight
  hexadecimal digits each, and the port as a number. A row has the socket it belongs to,
  and the columns the parser skips; columns are separated by any number of blanks.
\<close>

definition proc_addr_words :: "u8 \<Rightarrow> u32 list \<Rightarrow> u32 list" where
  "proc_addr_words family ws = (if family = 2 then [ws ! 0] else ws)"

definition proc_addr_text :: "u8 \<Rightarrow> u32 list \<Rightarrow> u16 \<Rightarrow> string" where
  "proc_addr_text family ws raw_port =
     concat (map (\<lambda>w. show_hex 8 (unat w)) (proc_addr_words family ws))
     @ '':'' @ show_hex 4 (unat (u16_from_be raw_port))"

definition proc_columns :: "inet_diag_msg \<Rightarrow> string \<Rightarrow> string list \<Rightarrow> string list \<Rightarrow> string list" where
  "proc_columns d sl middle after =
     [sl, proc_addr_text (idiag_family d) (idiag_src (msg_id d)) (idiag_sport (msg_id d)),
      proc_addr_text (idiag_family d) (idiag_dst (msg_id d)) (idiag_dport (msg_id d)),
      show_hex 2 (unat (idiag_state d))] @ middle @ [show_word (idiag_inode d)] @ after"

definition proc_line :: "(nat \<times> string) list \<Rightarrow> string" where
  "proc_line cols = concat (map (\<lambda>(n, c). replicate n (CHR '' '') @ c) cols)"

definition column_ok :: "string \<Rightarrow> bool" where
  "column_ok c \<longleftrightarrow> c \<noteq> [] \<and> (\<forall>x \<in> set c. \<not> is_ws x)"

lemma is_ws_blank: "is_ws (CHR '' '')"
  by (simp add: is_ws_def)

lemma split_by_blanks:
  "filter (\<lambda>p. p \<noteq> []) (split_by is_ws (replicate n (CHR '' '') @ s)) = filter (\<lambda>p. p \<noteq> []) (split_by is_ws s)"
  by (induction n) (simp_all add: is_ws_blank)

lemma split_whitespace_line:
  "\<forall>(n, c) \<in> set cols. 0 < n \<and> column_ok c \<Longrightarrow> column_ok c0 \<Longrightarrow>
   split_whitespace (replicate n0 (CHR '' '') @ c0 @ proc_line cols) = c0 # map snd cols"
proof (induction cols arbitrary: n0 c0)
  case Nil
  then show ?case
    by (simp add: split_whitespace_def split_by_blanks proc_line_def column_ok_def split_by_no_sep)
next
  case (Cons x cols)
  obtain n c where x: "x = (n, c)" by (cases x)
  with Cons.prems(1) obtain k where n: "n = Suc k" by (cases n) auto
  from Cons.prems have "split_by is_ws (c0 @ CHR '' '' # replicate k (CHR '' '') @ c @ proc_line cols)
      = c0 # split_by is_ws (replicate k (CHR '' '') @ c @ proc_line cols)"
    by (intro split_by_append_sep) (auto simp: column_ok_def is_ws_blank)
  moreover have "proc_line (x # cols) = CHR '' '' # replicate k (CHR '' '') @ c @ proc_line cols"
    by (simp add: proc_line_def x n)
  moreover have "split_whitespace (replicate k (CHR '' '') @ c @ proc_line cols) = c # map snd cols"
    using Cons.IH [of c k] Cons.prems x by auto
  ultimately show ?case
    using Cons.prems(2) by (simp add: split_whitespace_def split_by_blanks x column_ok_def)
qed

lemma from_str_radix_hex8: "from_str_radix 16 (show_hex 8 (unat w)) = Some (w :: u32)"
  using from_str_radix_show_hex [of "unat w" 8, where 'a = 32] unsigned_less [of w] by simp

lemma from_str_radix_hex4: "from_str_radix 16 (show_hex 4 (unat w)) = Some (w :: u16)"
  using from_str_radix_show_hex [of "unat w" 4, where 'a = 16] unsigned_less [of w] by simp

lemma from_str_radix_hex2: "from_str_radix 16 (show_hex 2 (unat w)) = Some (w :: u8)"
  using from_str_radix_show_hex [of "unat w" 2, where 'a = 8] unsigned_less [of w] by simp

lemma be_of_be [simp]: "u32_to_be_bytes (u32_from_be w) = u32_to_le_bytes w"
proof -
  obtain a b c d where w: "w = u32_from_le_bytes a b c d"
    using u32_of_le_bytes [of w] by metis
  show ?thesis by (simp add: w u32_to_be_bytes_def)
qed

lemma slice_hex_words:
  "slice (concat (map (\<lambda>w. show_hex 8 (unat w)) [a, b, c, d])) (i * 8) (i * 8 + 8)
     = Some (show_hex 8 (unat ([a, b, c, d] ! i)))" if "i < 4" for a b c d :: u32
proof -
  have "i = 0 \<or> i = 1 \<or> i = 2 \<or> i = 3" using that by linarith
  then show ?thesis by (elim disjE) (simp_all add: slice_def)
qed

lemma alnum_hex_text: "\<forall>x \<in> set (concat (map (\<lambda>w. show_hex 8 (unat w)) ws)). alnum x"
  using alnum_show_hex by auto

lemma parse_proc_addr_text:
  assumes fam: "family = 2 \<or> family = 10" and len: "length ws = 4"
  shows "parse_proc_socket_addr (proc_addr_text family ws p) (family = 2)
     = Some (socket_addr_from_diag family ws p)"
proof -
  obtain a b c d where ws: "ws = [a, b, c, d]"
    using len by (auto simp: numeral_eq_Suc length_Suc_conv)
  let ?hex = "concat (map (\<lambda>w. show_hex 8 (unat w)) (proc_addr_words family ws))"
  have "split_by (\<lambda>c. c = CHR '':'') (proc_addr_text family ws p)
      = ?hex # split_by (\<lambda>c. c = CHR '':'') (show_hex 4 (unat (u16_from_be p)))"
    unfolding proc_addr_text_def using alnum_hex_text [of "proc_addr_words family ws"]
    by (subst append_Cons, subst append_Nil, intro split_by_append_sep) (blast dest: alnum_not(2), simp)
  moreover have "split_by (\<lambda>c. c = CHR '':'') (show_hex 4 (unat (u16_from_be p)))
      = [show_hex 4 (unat (u16_from_be p))]"
    using alnum_show_hex by (intro split_by_no_sep) (blast dest: alnum_not(2))
  ultimately have parts: "split_by (\<lambda>c. c = CHR '':'') (proc_addr_text family ws p)
      = [?hex, show_hex 4 (unat (u16_from_be p))]" by simp
  show ?thesis
  proof (cases "family = 2")
    case True
    then have "?hex = show_hex 8 (unat a)" by (simp add: proc_addr_words_def ws)
    then show ?thesis
      unfolding parse_proc_socket_addr_def parts
      by (simp add: True ws from_str_radix_hex8 from_str_radix_hex4 proc_constants
          socket_addr_from_diag_def AF_INET_FAMILY_def ipv4_from_u32_def u32_to_le_bytes_def)
  next
    case False
    then have hex: "?hex = concat (map (\<lambda>w. show_hex 8 (unat w)) [a, b, c, d])"
      by (simp add: proc_addr_words_def ws)
    have "length ?hex = 32" by (simp add: hex)
    moreover have "proc_ipv6_words ?hex [0, 1, 2, 3]
        = Some (Some (concat (map u32_to_le_bytes [a, b, c, d])))"
      unfolding hex
      using slice_hex_words [of 0 a b c d] slice_hex_words [of 1 a b c d]
        slice_hex_words [of 2 a b c d] slice_hex_words [of 3 a b c d]
      by (simp add: Let_def from_str_radix_hex8)
    ultimately show ?thesis
      unfolding parse_proc_socket_addr_def parts using False fam
      by (simp add: ws from_str_radix_hex4 proc_constants socket_addr_from_diag_def
          AF_INET_FAMILY_def AF_INET6_FAMILY_def ipv6_from_be_words_def
          del: proc_ipv6_words.simps)
  qed
qed

lemma parse_tcp_state_hex: "parse_tcp_state (show_hex 2 (unat st)) Tcp = tcp_state_to_str st"
  by (simp add: parse_tcp_state_def tcp_state_to_str_def from_str_radix_hex2)

lemma parse_inode: "parse_dec (show_word w) = Some (ucast w :: u64)" for w :: u32
proof -
  have "unat w < 2 ^ 32" using unsigned_less [of w] by simp
  then have "unat w < 2 ^ 64" by simp
  then show ?thesis by (simp add: show_word_def parse_dec_show_nat)
qed

lemma proc_row_columns:
  assumes "diag_wf d" and "idiag_family d = 2 \<or> idiag_family d = 10" and "length middle = 5"
    and "split_whitespace line = proc_columns d sl middle after"
  shows "proc_row f kind (idiag_family d = 2) line
    = Some (case entry_of_diag d kind of
         Inl e \<Rightarrow> Inl (ParseLine f line)
       | Inr e \<Rightarrow> Inr (e\<lparr>se_uid := 0, se_state := if kind = Tcp then se_state e else ''UNCONN''\<rparr>))"
proof -
  note addr = parse_proc_addr_text [OF assms(2)]
  have l: "length (idiag_src (msg_id d)) = 4" "length (idiag_dst (msg_id d)) = 4"
    using assms(1) by (simp_all add: diag_wf_def)
  obtain c4 c5 c6 c7 c8 where mid: "middle = [c4, c5, c6, c7, c8]"
    using assms(3) by (auto simp: numeral_eq_Suc length_Suc_conv)
  show ?thesis
    unfolding proc_row_def assms(4) proc_columns_def
    by (simp add: Let_def proc_constants mid addr l parse_inode parse_tcp_state_hex
        entry_of_diag_def nth_append split: option.split)
       (simp add: parse_tcp_state_def)
qed

lemma proc_columns_ok:
  assumes "\<forall>c \<in> set (sl # middle @ after). column_ok c"
  shows "\<forall>c \<in> set (proc_columns d sl middle after). column_ok c"
proof -
  have ok: "column_ok (show_word w)" for w :: u32
    unfolding column_ok_def show_word_def using alnum_show_nat alnum_not(1) by simp
  have hx: "column_ok (show_hex k n)" if "0 < k" for k n
    unfolding column_ok_def using alnum_show_hex alnum_not(1) length_show_hex [of k n] that by fastforce
  have ad: "column_ok (proc_addr_text fam ws p)" for fam ws p
    unfolding column_ok_def proc_addr_text_def
    using alnum_show_hex alnum_not(1) by (auto simp: is_ws_def)
  show ?thesis using assms by (auto simp: proc_columns_def ok hx ad)
qed

lemma split_proc_line:
  assumes "length middle = 5" and "\<forall>c \<in> set (sl # middle @ after). column_ok c"
    and "length gaps = length (middle @ after) + 4" and "\<forall>n \<in> set gaps. 0 < n"
  shows "split_whitespace (proc_line ((n, hd (proc_columns d sl middle after)) #
         zip gaps (tl (proc_columns d sl middle after)))) = proc_columns d sl middle after"
proof -
  let ?cols = "proc_columns d sl middle after"
  have all: "\<forall>c \<in> set ?cols. column_ok c" using assms(2) by (rule proc_columns_ok)
  then have all_tl: "\<forall>c \<in> set (tl ?cols). column_ok c" by (simp add: proc_columns_def)
  have len: "length gaps = length (tl ?cols)" using assms(3) by (simp add: proc_columns_def)
  have line: "proc_line ((n, hd ?cols) # zip gaps (tl ?cols))
      = replicate n (CHR '' '') @ hd ?cols @ proc_line (zip gaps (tl ?cols))"
    by (simp add: proc_line_def)
  have "split_whitespace (proc_line ((n, hd ?cols) # zip gaps (tl ?cols)))
      = hd ?cols # map snd (zip gaps (tl ?cols))"
    unfolding line
  proof (rule split_whitespace_line)
    show "column_ok (hd ?cols)" using all by (simp add: proc_columns_def)
    show "\<forall>(n, c) \<in> set (zip gaps (tl ?cols)). 0 < n \<and> column_ok c"
    proof (intro ballI, clarify)
      fix n c assume z: "(n, c) \<in> set (zip gaps (tl ?cols))"
      show "0 < n \<and> column_ok c"
        using set_zip_leftD [OF z] set_zip_rightD [OF z] assms(4) all_tl by blast
    qed
  qed
  also have "\<dots> = ?cols" using len by (simp add: proc_columns_def)
  finally show ?thesis .
qed

lemma proc_line_chars:
  "x \<in> set (proc_line cols) \<Longrightarrow> x = CHR '' '' \<or> (\<exists>c \<in> snd ` set cols. x \<in> set c)"
  by (fastforce simp: proc_line_def)

text \<open>C21. The two sources agree. For the same kernel socket, the row the kernel prints in
  /proc/net (whatever blanks separate its columns and whatever the other columns hold) and
  the diagnostic message it sends over netlink are read as the same entry, inode,
  addresses, ports and TCP state; the fallback knows no uid (it stores zero), and calls the
  state of every UDP socket UNCONN.\<close>

theorem fallback_agrees_with_netlink:
  assumes "diag_wf d" and "idiag_family d = 2 \<or> idiag_family d = 10"
    and "length middle = 5" and "\<forall>c \<in> set (sl # middle @ after). column_ok c"
    and "length gaps = length (middle @ after) + 4" and "\<forall>n \<in> set gaps. 0 < n"
    and "entry_of_diag d kind = Inr e"
  shows "proc_row f kind (idiag_family d = 2)
      (proc_line ((n, hd (proc_columns d sl middle after)) #
         zip gaps (tl (proc_columns d sl middle after))))
    = Some (Inr (e\<lparr>se_uid := 0, se_state := if kind = Tcp then se_state e else ''UNCONN''\<rparr>))"
  using split_proc_line [OF assms(3-6)] proc_row_columns [OF assms(1-3)] assms(7) by simp


theorem fallback_agrees_with_netlink_witness:
  "\<exists>e. proc_row ''/proc/net/udp'' Udp (idiag_family dns_socket = 2)
      (proc_line ((2, hd (proc_columns dns_socket ''77:'' [''0:0'', ''0:0'', ''0'', ''102'', ''0''] [])) #
         zip [1, 1, 1, 1, 1, 1, 4, 8, 1] (tl (proc_columns dns_socket ''77:'' [''0:0'', ''0:0'', ''0'', ''102'', ''0''] []))))
    = Some (Inr (e\<lparr>se_uid := 0, se_state := if Udp = Tcp then se_state e else ''UNCONN''\<rparr>))"
proof -
  obtain e where "entry_of_diag dns_socket Udp = Inr e"
    by (auto simp: entry_of_diag_def dns_socket_def socket_addr_from_diag_def AF_INET_FAMILY_def)
  then have "proc_row ''/proc/net/udp'' Udp (idiag_family dns_socket = 2)
      (proc_line ((2, hd (proc_columns dns_socket ''77:'' [''0:0'', ''0:0'', ''0'', ''102'', ''0''] [])) #
         zip [1, 1, 1, 1, 1, 1, 4, 8, 1] (tl (proc_columns dns_socket ''77:'' [''0:0'', ''0:0'', ''0'', ''102'', ''0''] []))))
    = Some (Inr (e\<lparr>se_uid := 0, se_state := if Udp = Tcp then se_state e else ''UNCONN''\<rparr>))"
    by (intro fallback_agrees_with_netlink)
       (simp_all add: diag_wf_def dns_socket_def column_ok_def is_ws_def)
  then show ?thesis ..
qed

section \<open>The contract of a socket source\<close>

text \<open>
  The resolver takes its sockets from either source and relies on one promise: the map is
  keyed by inode and its entries are well formed.
\<close>

locale socket_source =
  fixes source :: "'env \<Rightarrow> ('err + socket_map) option"
  assumes source_ok: "source env = Some (Inr m) \<Longrightarrow> sockets_ok m"
begin

lemma source_keyed: "source env = Some (Inr m) \<Longrightarrow> hm_get m k = Some e \<Longrightarrow> se_inode e = k"
  using source_ok [of env m] by (simp add: sockets_ok_def)

lemma source_entry:
  assumes "source env = Some (Inr m)" and "(k, e) \<in> set m"
  shows "se_inode e = k \<and> entry_ok e"
  using source_ok [OF assms(1)] assms(2) by (auto simp: sockets_ok_def hm_get_Some_iff)

end

lemma read_proc_net_ok: "read_proc_net rd = Some (Inr m) \<Longrightarrow> sockets_ok m"
  using read_proc_files_ok [of proc_net_files "[]" rd]
  by (auto simp: read_proc_net_def proc_net_files_def)

interpretation netlink_source: socket_source query_sockets
  by unfold_locales (rule query_sockets_ok)

interpretation proc_source: socket_source read_proc_net
  by unfold_locales (rule read_proc_net_ok)
end
