(* ===== verification/Controller.thy ===== *)
theory Controller
  imports Rust_Text
begin

text \<open>
  The traffic control of crates/controller/src/lib.rs: blocking, unblocking and rate
  limiting a process with nftables rules. The nft program is a parameter: what one call of
  it returns, and how it changes the state \<open>'n\<close> of the packet filter. The state of the crate
  is the map from PIDs to rule handles behind its mutex; an operation returns a result and
  the new state of both.
\<close>

section \<open>State and parameters\<close>

definition NFT_TABLE_NAME :: string where "NFT_TABLE_NAME = ''filter''"
definition NFT_FAMILY :: string where "NFT_FAMILY = ''inet''"
definition NFT_OUTPUT_CHAIN :: string where "NFT_OUTPUT_CHAIN = ''output''"
definition RULE_COMMENT_PREFIX :: string where "RULE_COMMENT_PREFIX = ''netmon-pid-''"
definition PROC_NET_PORT_COLUMN_COUNT :: nat where "PROC_NET_PORT_COLUMN_COUNT = 2"

text \<open>An error of spawning a program: whether it is \<open>NotFound\<close>, and its text.\<close>

datatype io_error = IoError bool string

text \<open>The result of one call of nft: an error of running it, or success flag and output.\<close>

datatype nft_output = NotRun io_error | Exited bool string string

datatype script_output = NotSpawned io_error | WriteFailed string | WaitFailed string
  | ScriptExited bool string string

record 'n nft_cli =
  nft_args :: "string list \<Rightarrow> 'n \<Rightarrow> nft_output \<times> 'n"
  nft_stdin :: "string \<Rightarrow> 'n \<Rightarrow> script_output \<times> 'n"

record 'n controller =
  rules_map :: "(u32, u64 list) hashmap rwlock"
  filter_state :: 'n

type_synonym 'n outcome = "(string + unit) \<times> 'n controller"

section \<open>Running nft\<close>

definition map_nft_spawn_error :: "io_error \<Rightarrow> string" where
  "map_nft_spawn_error err = (case err of IoError not_found e \<Rightarrow>
     if not_found then ''Blocking failed: nft not found. Install with: sudo apt-get install nftables''
     else ''failed to run nft: '' @ e)"

definition run_nft_command :: "'n nft_cli \<Rightarrow> string list \<Rightarrow> bool \<Rightarrow> 'n controller \<Rightarrow> 'n outcome" where
  "run_nft_command nft args ignore_exists c =
     (let (out, n) = nft_args nft args (filter_state c); c = c\<lparr>filter_state := n\<rparr> in
      case out of
        NotRun e \<Rightarrow> (Inl (map_nft_spawn_error e), c)
      | Exited success stdout stderr \<Rightarrow>
          if success then (Inr (), c)
          else if ignore_exists \<and> contains ''File exists'' stderr then (Inr (), c)
          else (Inl (''nft command error: '' @ stderr), c))"

definition run_nft_script :: "'n nft_cli \<Rightarrow> string \<Rightarrow> 'n controller \<Rightarrow> 'n outcome" where
  "run_nft_script nft script c =
     (let (out, n) = nft_stdin nft script (filter_state c); c = c\<lparr>filter_state := n\<rparr> in
      case out of
        NotSpawned e \<Rightarrow> (Inl (map_nft_spawn_error e), c)
      | WriteFailed e \<Rightarrow> (Inl (''failed writing nft ruleset to stdin: '' @ e), c)
      | WaitFailed e \<Rightarrow> (Inl (''failed waiting on nft: '' @ e), c)
      | ScriptExited success out err \<Rightarrow>
          if success then (Inr (), c)
          else (Inl (''nft failed. stdout: '' @ out @ ''. stderr: '' @ err), c))"

definition setup_nftables :: "'n nft_cli \<Rightarrow> 'n controller \<Rightarrow> 'n outcome" where
  "setup_nftables nft c =
     (case run_nft_command nft [''add'', ''table'', NFT_FAMILY, NFT_TABLE_NAME] True c of
        (Inl e, c) \<Rightarrow> (Inl e, c)
      | (Inr _, c) \<Rightarrow>
          run_nft_command nft [''add'', ''chain'', NFT_FAMILY, NFT_TABLE_NAME, NFT_OUTPUT_CHAIN,
            ''{'', ''type'', ''filter'', ''hook'', NFT_OUTPUT_CHAIN, ''priority'', ''0'', '';'',
            ''policy'', ''accept'', '';'', ''}''] True c)"

section \<open>Reading /proc\<close>

definition parse_port_from_proc_addr :: "string \<Rightarrow> u16 option" where
  "parse_port_from_proc_addr proc_addr =
     (case split_by (\<lambda>c. c = CHR '':'') proc_addr of
        ip # port_hex # _ \<Rightarrow> from_str_radix 16 port_hex
      | _ \<Rightarrow> None)"

definition port_of_line :: "string \<Rightarrow> u16 option" where
  "port_of_line line =
     (let cols = split_whitespace line in
      if length cols < PROC_NET_PORT_COLUMN_COUNT then None
      else parse_port_from_proc_addr (cols ! 1))"

definition collect_pid_ports :: "(string \<Rightarrow> string option) \<Rightarrow> u32 \<Rightarrow> string list \<Rightarrow> u16 set" where
  "collect_pid_ports read_to_string pid files = fold (\<lambda>file ports.
     case read_to_string (''/proc/'' @ show_word pid @ ''/net/'' @ file) of
       None \<Rightarrow> ports
     | Some content \<Rightarrow>
         fold (\<lambda>line ports. case port_of_line line of Some port \<Rightarrow> insert port ports | None \<Rightarrow> ports)
           (drop 1 (str_lines content)) ports) files {}"

fun uid_of_lines :: "string list \<Rightarrow> u32 option" where
  "uid_of_lines [] = None"
| "uid_of_lines (line # lines) =
     (case strip_prefix ''Uid:'' line of
        Some rest \<Rightarrow>
          (case split_whitespace rest of _ # euid # _ \<Rightarrow> parse_dec euid | _ \<Rightarrow> None)
      | None \<Rightarrow> uid_of_lines lines)"

definition read_uid_for_pid :: "(string \<Rightarrow> string option) \<Rightarrow> u32 \<Rightarrow> u32 option" where
  "read_uid_for_pid read_to_string pid =
     (case read_to_string (''/proc/'' @ show_word pid @ ''/status'') of
        None \<Rightarrow> None | Some content \<Rightarrow> uid_of_lines (str_lines content))"

section \<open>Rulesets\<close>

definition quote :: string where "quote = [CHR 0x22]"

definition join_ports :: "u16 set \<Rightarrow> string" where
  "join_ports ports = join_strs '', '' (map show_word (sorted_list_of_set ports))"

definition rule_head :: string where
  "rule_head = ''add rule '' @ NFT_FAMILY @ '' '' @ NFT_TABLE_NAME @ '' '' @ NFT_OUTPUT_CHAIN @ '' ''"

definition port_rule :: "string \<Rightarrow> u16 set \<Rightarrow> string \<Rightarrow> string \<Rightarrow> string" where
  "port_rule proto ports limit comment =
     rule_head @ proto @ '' sport { '' @ join_ports ports @ '' } '' @ limit @ ''comment ''
       @ quote @ comment @ quote @ '' drop''"

definition build_block_ruleset :: "u16 set \<Rightarrow> u16 set \<Rightarrow> string \<Rightarrow> string" where
  "build_block_ruleset tcp_ports udp_ports comment =
     (if tcp_ports = {} then '''' else port_rule ''tcp'' tcp_ports '''' comment @ [newline])
     @ (if udp_ports = {} then '''' else port_rule ''udp'' udp_ports '''' comment @ [newline])"

definition rate_expr :: "u32 \<Rightarrow> string" where
  "rate_expr rate_kbps = show_word rate_kbps @ '' kbytes/second''"

definition build_rate_limit_ruleset :: "u16 set \<Rightarrow> u16 set \<Rightarrow> string \<Rightarrow> u32 \<Rightarrow> string" where
  "build_rate_limit_ruleset tcp_ports udp_ports comment rate_kbps =
     (let limit = ''limit rate over '' @ rate_expr rate_kbps @ '' '' in
      (if tcp_ports = {} then '''' else port_rule ''tcp'' tcp_ports limit comment @ [newline])
      @ (if udp_ports = {} then '''' else port_rule ''udp'' udp_ports limit comment @ [newline]))"

definition uid_rule :: "u32 \<Rightarrow> string \<Rightarrow> string \<Rightarrow> string" where
  "uid_rule uid limit comment =
     rule_head @ ''meta skuid '' @ show_word uid @ '' '' @ limit @ ''comment '' @ quote @ comment
       @ quote @ '' drop''"

section \<open>Finding handles\<close>

definition list_args :: "string list" where
  "list_args = [''list'', ''chain'', NFT_FAMILY, NFT_TABLE_NAME, NFT_OUTPUT_CHAIN]"

definition handle_of_line :: "string \<Rightarrow> string \<Rightarrow> u64 option" where
  "handle_of_line marker line =
     (if \<not> contains marker line then None
      else case rfind ''handle '' line of
        None \<Rightarrow> None
      | Some i \<Rightarrow> parse_dec (trim (drop (i + 7) line)))"

definition find_rule_handles ::
  "'n nft_cli \<Rightarrow> string \<Rightarrow> 'n controller \<Rightarrow> (string + u64 list) \<times> 'n controller" where
  "find_rule_handles nft marker c =
     (let (out, n) = nft_args nft (''-a'' # list_args) (filter_state c); c = c\<lparr>filter_state := n\<rparr> in
      case out of
        NotRun (IoError nf e) \<Rightarrow> (Inl (''failed to run nft list -a: '' @ e), c)
      | Exited success stdout stderr \<Rightarrow>
          if \<not> success then (Inl (''nft list -a failed: '' @ stderr), c)
          else (Inr (List.map_filter (handle_of_line marker) (str_lines stdout)), c))"

definition pid_marker :: "u32 \<Rightarrow> string" where
  "pid_marker pid = RULE_COMMENT_PREFIX @ show_word pid @ ''-''"

definition find_rule_handles_for_pid ::
  "'n nft_cli \<Rightarrow> u32 \<Rightarrow> 'n controller \<Rightarrow> (string + u64 list) \<times> 'n controller" where
  "find_rule_handles_for_pid nft pid c = find_rule_handles nft (pid_marker pid) c"

definition find_rule_handles_for_pid_comment ::
  "'n nft_cli \<Rightarrow> u32 \<Rightarrow> string \<Rightarrow> 'n controller \<Rightarrow> (string + u64 list) \<times> 'n controller" where
  "find_rule_handles_for_pid_comment nft pid sfx c =
     find_rule_handles nft (RULE_COMMENT_PREFIX @ show_word pid @ ''-'' @ sfx) c"

section \<open>Operations\<close>

definition lock_failed :: string where "lock_failed = ''failed to lock rules map''"

definition delete_args :: "u64 \<Rightarrow> string list" where
  "delete_args h = [''delete'', ''rule'', NFT_FAMILY, NFT_TABLE_NAME, NFT_OUTPUT_CHAIN, ''handle'', show_word h]"

fun delete_handles :: "'n nft_cli \<Rightarrow> u64 list \<Rightarrow> 'n controller \<Rightarrow> 'n outcome" where
  "delete_handles nft [] c = (Inr (), c)"
| "delete_handles nft (h # hs) c =
     (case run_nft_command nft (delete_args h) False c of
        (Inl e, c) \<Rightarrow> (Inl e, c)
      | (Inr _, c) \<Rightarrow> delete_handles nft hs c)"

text \<open>
  Taking the handles tracked under a key, or else those a search finds, and deleting the
  rules; \<open>unblock_process\<close> and \<open>remove_rate_limit_rules_for_pid\<close> have this shape.
\<close>

definition remove_tracked ::
  "'n nft_cli \<Rightarrow> u32 \<Rightarrow> ('n controller \<Rightarrow> (string + u64 list) \<times> 'n controller) \<Rightarrow> 'n controller \<Rightarrow> 'n outcome" where
  "remove_tracked nft key search c =
     (case lock_read (rules_map c) of
        None \<Rightarrow> (Inl lock_failed, c)
      | Some m \<Rightarrow>
          (let handles = (case hm_get m key of Some hs \<Rightarrow> hs | None \<Rightarrow> []);
               c = c\<lparr>rules_map := Unpoisoned (hm_remove key m)\<rparr>
           in if handles = [] then
                (case search c of
                   (Inl e, c) \<Rightarrow> (Inl e, c)
                 | (Inr found, c) \<Rightarrow> delete_handles nft found c)
              else delete_handles nft handles c))"

definition unblock_process :: "'n nft_cli \<Rightarrow> u32 \<Rightarrow> 'n controller \<Rightarrow> 'n outcome" where
  "unblock_process nft pid c = remove_tracked nft pid (find_rule_handles_for_pid nft pid) c"

definition sentinel :: "u32 \<Rightarrow> u32" where
  "sentinel pid = or pid 0x80000000"

definition remove_rate_limit_rules_for_pid :: "'n nft_cli \<Rightarrow> u32 \<Rightarrow> 'n controller \<Rightarrow> 'n outcome" where
  "remove_rate_limit_rules_for_pid nft pid c =
     remove_tracked nft (sentinel pid) (find_rule_handles_for_pid_comment nft pid ''rate-limit'') c"

definition track :: "u32 \<Rightarrow> u64 list \<Rightarrow> 'n controller \<Rightarrow> 'n outcome" where
  "track key handles c =
     (case lock_read (rules_map c) of
        None \<Rightarrow> (Inl lock_failed, c)
      | Some m \<Rightarrow> (Inr (), c\<lparr>rules_map := Unpoisoned (hm_insert key handles m)\<rparr>))"

text \<open>Installing a ruleset and tracking the handles found afterwards.\<close>

definition install_rules ::
  "'n nft_cli \<Rightarrow> string \<Rightarrow> u32 \<Rightarrow> ('n controller \<Rightarrow> (string + u64 list) \<times> 'n controller) \<Rightarrow> string
   \<Rightarrow> 'n controller \<Rightarrow> 'n outcome" where
  "install_rules nft rules key search not_found c =
     (case run_nft_script nft rules c of
        (Inl e, c) \<Rightarrow> (Inl e, c)
      | (Inr _, c) \<Rightarrow>
          (case search c of
             (Inl e, c) \<Rightarrow> (Inl e, c)
           | (Inr handles, c) \<Rightarrow>
               if handles = [] then (Inl not_found, c) else track key handles c))"

definition no_ports_error :: "u32 \<Rightarrow> string" where
  "no_ports_error pid = ''No TCP/UDP ports and could not read UID for PID '' @ show_word pid"

definition block_comment :: "u32 \<Rightarrow> string \<Rightarrow> string" where
  "block_comment pid process_name =
     RULE_COMMENT_PREFIX @ show_word pid @ ''-'' @ replace_char (CHR 0x22) (CHR ''_'') process_name"

definition block_rules :: "(string \<Rightarrow> string option) \<Rightarrow> u32 \<Rightarrow> string \<Rightarrow> string option" where
  "block_rules read_to_string pid process_name =
     (let tcp_ports = collect_pid_ports read_to_string pid [''tcp'', ''tcp6''];
          udp_ports = collect_pid_ports read_to_string pid [''udp'', ''udp6''];
          comment = block_comment pid process_name
      in if tcp_ports = {} \<and> udp_ports = {} then
           map_option (\<lambda>uid. uid_rule uid '''' comment @ [newline]) (read_uid_for_pid read_to_string pid)
         else Some (build_block_ruleset tcp_ports udp_ports comment))"

definition block_process ::
  "'n nft_cli \<Rightarrow> (string \<Rightarrow> string option) \<Rightarrow> u32 \<Rightarrow> string \<Rightarrow> 'n controller \<Rightarrow> 'n outcome" where
  "block_process nft read_to_string pid process_name c =
     (let c = snd (setup_nftables nft c); c = snd (unblock_process nft pid c) in
      case block_rules read_to_string pid process_name of
        None \<Rightarrow> (Inl (no_ports_error pid), c)
      | Some rules \<Rightarrow>
          install_rules nft rules pid (find_rule_handles_for_pid nft pid)
            ''Inserted rules but could not find nft handles'' c)"

definition rate_limit_rules :: "(string \<Rightarrow> string option) \<Rightarrow> u32 \<Rightarrow> u32 \<Rightarrow> string option" where
  "rate_limit_rules read_to_string pid rate_kbps =
     (let tcp_ports = collect_pid_ports read_to_string pid [''tcp'', ''tcp6''];
          udp_ports = collect_pid_ports read_to_string pid [''udp'', ''udp6''];
          comment = RULE_COMMENT_PREFIX @ show_word pid @ ''-rate-limit''
      in if tcp_ports = {} \<and> udp_ports = {} then
           map_option (\<lambda>uid. uid_rule uid (''limit rate over '' @ rate_expr rate_kbps @ '' '') comment @ [newline])
             (read_uid_for_pid read_to_string pid)
         else Some (build_rate_limit_ruleset tcp_ports udp_ports comment rate_kbps))"

definition rate_limit_process ::
  "'n nft_cli \<Rightarrow> (string \<Rightarrow> string option) \<Rightarrow> u32 \<Rightarrow> u32 \<Rightarrow> 'n controller \<Rightarrow> 'n outcome" where
  "rate_limit_process nft read_to_string pid rate_kbps c =
     (let c = snd (setup_nftables nft c) in
      case remove_rate_limit_rules_for_pid nft pid c of
        (Inl e, c) \<Rightarrow> (Inl e, c)
      | (Inr _, c) \<Rightarrow>
          (case rate_limit_rules read_to_string pid rate_kbps of
             None \<Rightarrow> (Inl (no_ports_error pid), c)
           | Some rules \<Rightarrow>
               install_rules nft rules (sentinel pid)
                 (find_rule_handles_for_pid_comment nft pid ''rate-limit'')
                 ''Inserted rate-limit rules but could not find nft handles'' c))"

definition unblock_all :: "'n nft_cli \<Rightarrow> 'n controller \<Rightarrow> 'n outcome" where
  "unblock_all nft c =
     (case run_nft_command nft [''flush'', ''chain'', NFT_FAMILY, NFT_TABLE_NAME, NFT_OUTPUT_CHAIN] False c of
        (Inl e, c) \<Rightarrow> (Inl e, c)
      | (Inr _, c) \<Rightarrow>
          (case lock_read (rules_map c) of
             None \<Rightarrow> (Inl lock_failed, c)
           | Some m \<Rightarrow> (Inr (), c\<lparr>rules_map := Unpoisoned []\<rparr>)))"

definition list_rules :: "'n nft_cli \<Rightarrow> 'n controller \<Rightarrow> (string + string list) \<times> 'n controller" where
  "list_rules nft c =
     (let (out, n) = nft_args nft list_args (filter_state c); c = c\<lparr>filter_state := n\<rparr> in
      case out of
        NotRun (IoError nf e) \<Rightarrow> (Inl (''failed to run nft: '' @ e), c)
      | Exited success stdout stderr \<Rightarrow>
          if \<not> success then (Inl (''nft list failed: '' @ stderr), c)
          else (Inr (str_lines stdout), c))"

end
