(* ===== verification/Controller_Spec.thy ===== *)
theory Controller_Spec
  imports Controller
begin

text \<open>
  What the controller achieves on a packet filter that behaves as documented. The filter's
  output chain is a list of rules, each a handle and the text nft prints for it; the
  documented behaviour of the calls the controller makes is one predicate, assumed where a
  theorem depends on it and shown to hold of a small concrete filter.
\<close>

section \<open>The documented behaviour of nft\<close>

type_synonym rule = "u64 \<times> string"

definition rule_line :: "rule \<Rightarrow> string" where
  "rule_line r = snd r @ '' # handle '' @ show_word (fst r)"

definition add_table_args :: "string list" where
  "add_table_args = [''add'', ''table'', NFT_FAMILY, NFT_TABLE_NAME]"

definition add_chain_args :: "string list" where
  "add_chain_args = [''add'', ''chain'', NFT_FAMILY, NFT_TABLE_NAME, NFT_OUTPUT_CHAIN,
     ''{'', ''type'', ''filter'', ''hook'', NFT_OUTPUT_CHAIN, ''priority'', ''0'', '';'',
     ''policy'', ''accept'', '';'', ''}'']"

definition flush_args :: "string list" where
  "flush_args = [''flush'', ''chain'', NFT_FAMILY, NFT_TABLE_NAME, NFT_OUTPUT_CHAIN]"

definition script_of :: "string list \<Rightarrow> string" where
  "script_of bodies = concat (map (\<lambda>b. rule_head @ b @ [newline]) bodies)"

definition handles :: "rule list \<Rightarrow> u64 set" where
  "handles rules = fst ` set rules"

text \<open>
  \<open>chain\<close> reads the rules of the output chain, \<open>accepts\<close> says which rule bodies nft takes,
  and \<open>printed\<close> is how it lists a body. Adding the table or the chain when they exist keeps
  the rules; listing prints every rule on a line of its own with its handle, between lines
  that do not mention netmon; deleting a rule by its handle removes that rule, and fails
  when there is none; a script of accepted bodies appends them with fresh handles, as long
  as there are any; and a listed rule shows its comment.
\<close>

definition nft_documented ::
  "'n nft_cli \<Rightarrow> ('n \<Rightarrow> rule list) \<Rightarrow> (string \<Rightarrow> bool) \<Rightarrow> (string \<Rightarrow> string) \<Rightarrow> bool" where
  "nft_documented nft chain accepts printed \<longleftrightarrow>
     (\<forall>n. chain (snd (nft_args nft add_table_args n)) = chain n)
   \<and> (\<forall>n. chain (snd (nft_args nft add_chain_args n)) = chain n)
   \<and> (\<forall>n. \<exists>before after out. nft_args nft (''-a'' # list_args) n = (Exited True out '''', n)
         \<and> str_lines out = before @ map rule_line (chain n) @ after
         \<and> (\<forall>l \<in> set (before @ after). \<not> contains RULE_COMMENT_PREFIX l))
   \<and> (\<forall>n h. if h \<in> handles (chain n)
        then \<exists>out err n'. nft_args nft (delete_args h) n = (Exited True out err, n')
               \<and> chain n' = filter (\<lambda>r. fst r \<noteq> h) (chain n)
        else \<exists>out err. nft_args nft (delete_args h) n = (Exited False out err, n))
   \<and> (\<forall>n bodies. bodies \<noteq> [] \<and> list_all accepts bodies \<and> length (chain n) + length bodies < 2 ^ 64 \<longrightarrow>
        (\<exists>out err n' hs. nft_stdin nft (script_of bodies) n = (ScriptExited True out err, n')
           \<and> length hs = length bodies \<and> distinct hs \<and> set hs \<inter> handles (chain n) = {}
           \<and> chain n' = chain n @ zip hs (map printed bodies)))
   \<and> (\<forall>n. \<exists>out err n'. nft_args nft flush_args n = (Exited True out err, n') \<and> chain n' = [])
   \<and> (\<forall>a comment b. accepts (a @ ''comment '' @ quote @ comment @ quote @ b)
        \<longrightarrow> contains comment (printed (a @ ''comment '' @ quote @ comment @ quote @ b)))"

lemma nft_documentedD:
  assumes "nft_documented nft chain accepts printed"
  shows "chain (snd (nft_args nft add_table_args n)) = chain n"
    "chain (snd (nft_args nft add_chain_args n)) = chain n"
    "\<exists>before after out. nft_args nft (''-a'' # list_args) n = (Exited True out '''', n)
         \<and> str_lines out = before @ map rule_line (chain n) @ after
         \<and> (\<forall>l \<in> set (before @ after). \<not> contains RULE_COMMENT_PREFIX l)"
    "h \<in> handles (chain n) \<Longrightarrow> \<exists>out err n'. nft_args nft (delete_args h) n = (Exited True out err, n')
         \<and> chain n' = filter (\<lambda>r. fst r \<noteq> h) (chain n)"
    "h \<notin> handles (chain n) \<Longrightarrow> \<exists>out err. nft_args nft (delete_args h) n = (Exited False out err, n)"
    "bodies \<noteq> [] \<Longrightarrow> list_all accepts bodies \<Longrightarrow> length (chain n) + length bodies < 2 ^ 64 \<Longrightarrow>
        \<exists>out err n' hs. nft_stdin nft (script_of bodies) n = (ScriptExited True out err, n')
           \<and> length hs = length bodies \<and> distinct hs \<and> set hs \<inter> handles (chain n) = {}
           \<and> chain n' = chain n @ zip hs (map printed bodies)"
    "\<exists>out err n'. nft_args nft flush_args n = (Exited True out err, n') \<and> chain n' = []"
    "accepts (a @ ''comment '' @ quote @ comment @ quote @ b)
        \<Longrightarrow> contains comment (printed (a @ ''comment '' @ quote @ comment @ quote @ b))"
  using assms unfolding nft_documented_def by (meson | (simp split: if_splits; fail) | metis)+

section \<open>Listing\<close>

lemma contains_hd: "contains p s \<Longrightarrow> p \<noteq> [] \<Longrightarrow> hd p \<in> set s"
  by (cases p) (auto simp: contains_iff)

lemma show_word_alnum: "c \<in> set (show_word w) \<Longrightarrow> alnum c"
  using alnum_show_nat by (auto simp: show_word_def)

lemma rfind_handle: "rfind ''handle '' (''handle '' @ show_word h) = Some 0"
proof -
  have "\<not> alnum (CHR ''h'')" by (simp add: alnum_def)
  then have "CHR ''h'' \<notin> set (''andle '' @ show_word h)" using show_word_alnum by auto
  then have "rfind ''handle '' (''andle '' @ show_word h) = None"
    unfolding rfind_None_iff using contains_hd [of "''handle ''" "''andle '' @ show_word h"] by auto
  moreover have "starts_with ''handle '' (''handle '' @ show_word h)" by (rule starts_with_append)
  ultimately show ?thesis by simp
qed

lemma handle_of_rule_line:
  "handle_of_line marker (rule_line r) = (if contains marker (rule_line r) then Some (fst r) else None)"
proof -
  have line: "rule_line r = (snd r @ '' # '') @ (''handle '' @ show_word (fst r))"
    by (simp add: rule_line_def)
  have "rfind ''handle '' (rule_line r) = Some (length (snd r @ '' # '') + 0)"
    unfolding line by (rule rfind_append [OF rfind_handle])
  moreover have "drop (length (snd r @ '' # '') + 7) (rule_line r) = show_word (fst r)"
    by (simp add: rule_line_def)
  moreover have "trim (show_word (fst r)) = show_word (fst r)"
    using show_word_alnum alnum_not(1) by (intro trim_no_ws) blast
  ultimately show ?thesis
    by (simp add: handle_of_line_def parse_dec_show_word)
qed

definition marked :: "string \<Rightarrow> rule list \<Rightarrow> rule list" where
  "marked marker rules = filter (\<lambda>r. contains marker (rule_line r)) rules"

lemma contains_trans: "contains p q \<Longrightarrow> contains q s \<Longrightarrow> contains p s"
  unfolding contains_iff by (metis append.assoc)

lemma find_rule_handles_documented:
  assumes "nft_documented nft chain accepts printed" and "contains RULE_COMMENT_PREFIX marker"
  shows "find_rule_handles nft marker c
    = (Inr (map fst (marked marker (chain (filter_state c)))), c)"
proof -
  obtain before after out where out: "nft_args nft (''-a'' # list_args) (filter_state c)
      = (Exited True out '''', filter_state c)"
    and ls: "str_lines out = before @ map rule_line (chain (filter_state c)) @ after"
    and noise: "\<forall>l \<in> set (before @ after). \<not> contains RULE_COMMENT_PREFIX l"
    using nft_documentedD(3) [OF assms(1)] by blast
  have "handle_of_line marker l = None" if "l \<in> set (before @ after)" for l
    using noise that contains_trans [OF assms(2)] by (auto simp: handle_of_line_def)
  then have "List.map_filter (handle_of_line marker) (str_lines out)
      = map fst (marked marker (chain (filter_state c)))"
    unfolding ls List.map_filter_def marked_def
    by (auto simp: filter_map o_def handle_of_rule_line filter_empty_conv if_distrib cong: if_cong)
  then show ?thesis by (simp add: find_rule_handles_def out)
qed

lemma prefix_in_marker: "contains RULE_COMMENT_PREFIX (pid_marker pid)"
  "contains RULE_COMMENT_PREFIX (RULE_COMMENT_PREFIX @ s)"
  unfolding pid_marker_def using contains_infix [of RULE_COMMENT_PREFIX "[]"] by simp_all

section \<open>Deleting\<close>

lemma delete_one:
  assumes "nft_documented nft chain accepts printed"
  shows "run_nft_command nft (delete_args h) False c =
     (if h \<in> handles (chain (filter_state c))
      then (Inr (), c\<lparr>filter_state := snd (nft_args nft (delete_args h) (filter_state c))\<rparr>)
      else (fst (run_nft_command nft (delete_args h) False c), c))"
    and "h \<in> handles (chain (filter_state c)) \<Longrightarrow>
      chain (snd (nft_args nft (delete_args h) (filter_state c))) = filter (\<lambda>r. fst r \<noteq> h) (chain (filter_state c))"
    and "h \<notin> handles (chain (filter_state c)) \<Longrightarrow> \<exists>e. fst (run_nft_command nft (delete_args h) False c) = Inl e"
  using nft_documentedD(4,5) [OF assms, of h "filter_state c"]
  by (auto simp: run_nft_command_def)

lemma delete_handles_documented:
  assumes "nft_documented nft chain accepts printed"
  shows "distinct hs \<Longrightarrow> set hs \<subseteq> handles (chain (filter_state c)) \<Longrightarrow>
    \<exists>n'. delete_handles nft hs c = (Inr (), c\<lparr>filter_state := n'\<rparr>)
      \<and> chain n' = filter (\<lambda>r. fst r \<notin> set hs) (chain (filter_state c))"
proof (induction hs arbitrary: c)
  case Nil
  then show ?case by (intro exI [of _ "filter_state c"]) simp
next
  case (Cons h hs)
  let ?n = "snd (nft_args nft (delete_args h) (filter_state c))"
  have h: "h \<in> handles (chain (filter_state c))" using Cons.prems by simp
  note del = delete_one(2) [OF assms h]
  have "set hs \<subseteq> handles (chain ?n)"
    using Cons.prems unfolding del by (fastforce simp: handles_def)
  with Cons.IH [of "c\<lparr>filter_state := ?n\<rparr>"] Cons.prems obtain n' where
    n': "delete_handles nft hs (c\<lparr>filter_state := ?n\<rparr>) = (Inr (), c\<lparr>filter_state := n'\<rparr>)"
    and ch: "chain n' = filter (\<lambda>r. fst r \<notin> set hs) (chain ?n)" by auto
  have "chain n' = filter (\<lambda>r. fst r \<notin> set (h # hs)) (chain (filter_state c))"
    unfolding ch del by (simp add: conj_commute)
  with n' delete_one(1) [OF assms, of h c] h show ?case
    by (intro exI [of _ n']) simp
qed

section \<open>Unblocking\<close>

text \<open>The handles an unblock deletes: those tracked, or when there are none those found.\<close>

definition to_delete :: "u32 \<Rightarrow> string \<Rightarrow> (u32, u64 list) hashmap \<Rightarrow> rule list \<Rightarrow> u64 list" where
  "to_delete key marker m rules =
     (case hm_get m key of Some (h # hs) \<Rightarrow> h # hs | _ \<Rightarrow> map fst (marked marker rules))"

lemma remove_tracked_documented:
  assumes doc: "nft_documented nft chain accepts printed" and "contains RULE_COMMENT_PREFIX marker"
    and "search = find_rule_handles nft marker"
    and m: "rules_map c = Unpoisoned m"
    and hs: "hs = to_delete key marker m (chain (filter_state c))"
    and sub: "distinct hs" "set hs \<subseteq> handles (chain (filter_state c))"
  shows "\<exists>n'. remove_tracked nft key search c
      = (Inr (), c\<lparr>rules_map := Unpoisoned (hm_remove key m), filter_state := n'\<rparr>)
    \<and> chain n' = filter (\<lambda>r. fst r \<notin> set hs) (chain (filter_state c))"
proof -
  let ?c = "c\<lparr>rules_map := Unpoisoned (hm_remove key m)\<rparr>"
  have "remove_tracked nft key search c = delete_handles nft hs ?c"
    using find_rule_handles_documented [OF doc assms(2), of ?c]
    by (auto simp: remove_tracked_def m assms(3) hs to_delete_def Let_def split: option.split list.split)
  with delete_handles_documented [OF doc, of hs ?c] sub show ?thesis by simp
qed

section \<open>Blocking and unblocking\<close>

lemma setup_documented:
  assumes "nft_documented nft chain accepts printed"
  shows "rules_map (snd (setup_nftables nft c)) = rules_map c"
    and "chain (filter_state (snd (setup_nftables nft c))) = chain (filter_state c)"
proof -
  have keep: "rules_map (snd (run_nft_command nft args ig d)) = rules_map d"
    "filter_state (snd (run_nft_command nft args ig d)) = snd (nft_args nft args (filter_state d))" for args ig d
    by (simp_all add: run_nft_command_def Let_def split: prod.split nft_output.split)
  have prep: "snd (setup_nftables nft c) =
      (case run_nft_command nft add_table_args True c of
         (Inl e, c) \<Rightarrow> c | (Inr _, c) \<Rightarrow> snd (run_nft_command nft add_chain_args True c))"
    by (simp add: setup_nftables_def add_table_args_def add_chain_args_def split: prod.split sum.split)
  obtain r c1 where c1: "run_nft_command nft add_table_args True c = (r, c1)" by (cases "run_nft_command nft add_table_args True c")
  then have k: "rules_map c1 = rules_map c" "chain (filter_state c1) = chain (filter_state c)"
    using keep [of add_table_args True c] nft_documentedD(1) [OF assms] by simp_all
  show "rules_map (snd (setup_nftables nft c)) = rules_map c"
    by (simp add: prep c1 keep(1) k split: sum.split)
  show "chain (filter_state (snd (setup_nftables nft c))) = chain (filter_state c)"
    by (simp add: prep c1 keep(2) k nft_documentedD(2) [OF assms] split: sum.split)
qed

definition commented :: "string \<Rightarrow> string \<Rightarrow> bool" where
  "commented comment b \<longleftrightarrow> (\<exists>a z. b = a @ ''comment '' @ quote @ comment @ quote @ z)"

definition with_comment :: "string \<Rightarrow> string \<Rightarrow> string \<Rightarrow> string" where
  "with_comment a comment z = a @ ''comment '' @ quote @ comment @ quote @ z"

lemma commented_with [simp]: "commented comment (with_comment a comment z)"
  unfolding commented_def with_comment_def by blast

text \<open>The bodies of the rules a block installs.\<close>

definition port_body :: "string \<Rightarrow> u16 set \<Rightarrow> string \<Rightarrow> string \<Rightarrow> string" where
  "port_body proto ports limit comment =
     with_comment (proto @ '' sport { '' @ join_ports ports @ '' } '' @ limit) comment '' drop''"

definition block_bodies :: "(string \<Rightarrow> string option) \<Rightarrow> u32 \<Rightarrow> string \<Rightarrow> string list option" where
  "block_bodies rd pid name =
     (let tcp = collect_pid_ports rd pid [''tcp'', ''tcp6'']; udp = collect_pid_ports rd pid [''udp'', ''udp6''];
          comment = block_comment pid name
      in if tcp = {} \<and> udp = {} then
           map_option (\<lambda>uid. [with_comment (''meta skuid '' @ show_word uid @ '' '') comment '' drop''])
             (read_uid_for_pid rd pid)
         else Some ((if tcp = {} then [] else [port_body ''tcp'' tcp '''' comment])
           @ (if udp = {} then [] else [port_body ''udp'' udp '''' comment])))"

lemma block_rules_bodies: "block_rules rd pid name = map_option script_of (block_bodies rd pid name)"
  by (simp add: block_rules_def block_bodies_def Let_def script_of_def build_block_ruleset_def
      port_rule_def port_body_def with_comment_def uid_rule_def option.map_comp o_def)

lemma block_bodies_comment:
  "block_bodies rd pid name = Some bodies \<Longrightarrow>
   bodies \<noteq> [] \<and> (\<forall>b \<in> set bodies. commented (block_comment pid name) b)"
  by (auto simp: block_bodies_def Let_def port_body_def split: if_splits)

lemma comment_marker: "contains (pid_marker pid) (block_comment pid name)"
  using contains_infix [of "pid_marker pid" "[]"] by (simp add: pid_marker_def block_comment_def)

lemma install_documented:
  assumes doc: "nft_documented nft chain accepts printed"
    and bodies: "bodies \<noteq> []" "list_all accepts bodies"
      "length (chain (filter_state c)) + length bodies < 2 ^ 64"
    and comment: "\<forall>b \<in> set bodies. commented comment b"
    and marker: "contains marker comment" "contains RULE_COMMENT_PREFIX marker"
    and m: "rules_map c = Unpoisoned m" and none: "marked marker (chain (filter_state c)) = []"
  shows "\<exists>n' new. install_rules nft (script_of bodies) key (find_rule_handles nft marker) msg c
      = (Inr (), c\<lparr>filter_state := n', rules_map := Unpoisoned (hm_insert key (map fst new) m)\<rparr>)
    \<and> new \<noteq> [] \<and> map snd new = map printed bodies \<and> distinct (map fst new)
    \<and> fst ` set new \<inter> handles (chain (filter_state c)) = {}
    \<and> chain n' = chain (filter_state c) @ new"
proof -
  obtain out err n' hs where run: "nft_stdin nft (script_of bodies) (filter_state c) = (ScriptExited True out err, n')"
    and hs: "length hs = length bodies" "distinct hs" "set hs \<inter> handles (chain (filter_state c)) = {}"
    and ch: "chain n' = chain (filter_state c) @ zip hs (map printed bodies)"
    using nft_documentedD(6) [OF doc bodies] by blast
  let ?new = "zip hs (map printed bodies)"
  have new: "map fst ?new = hs" "map snd ?new = map printed bodies" "?new \<noteq> []"
    using hs(1) bodies(1) by (auto simp: zip_eq_Nil_iff)
  have "contains marker (rule_line r)" if "r \<in> set ?new" for r
  proof -
    from that have "snd r \<in> set (map printed bodies)" by (metis set_zip_rightD prod.collapse)
    then obtain b where b: "b \<in> set bodies" and r: "snd r = printed b" by auto
    from comment b obtain a z where "b = a @ ''comment '' @ quote @ comment @ quote @ z"
      unfolding commented_def by blast
    with nft_documentedD(8) [OF doc, of a comment z] bodies(2) b have "contains comment (snd r)"
      unfolding r list_all_iff by blast
    then obtain u v where "snd r = u @ comment @ v" by (auto simp: contains_iff)
    then have "contains comment (rule_line r)" by (simp add: rule_line_def)
    with marker(1) show ?thesis by (rule contains_trans)
  qed
  then have "marked marker (chain n') = ?new"
    using none by (simp add: marked_def ch filter_id_conv)
  with run new m find_rule_handles_documented [OF doc marker(2), of "c\<lparr>filter_state := n'\<rparr>"]
  have "install_rules nft (script_of bodies) key (find_rule_handles nft marker) msg c
      = (Inr (), c\<lparr>filter_state := n', rules_map := Unpoisoned (hm_insert key (map fst ?new) m)\<rparr>)"
    using bodies(1) hs(1) by (auto simp: install_rules_def run_nft_script_def track_def)
  moreover have "fst ` set ?new = set hs" by (metis list.set_map new(1))
  ultimately show ?thesis
    using new hs ch by (intro exI [of _ n'] exI [of _ ?new]) simp
qed

text \<open>C9. On a packet filter that behaves as nft documents, blocking a process that has no rules
  yet appends its drop rules, carrying its marker, to the output chain, tracks exactly their
  handles, and touches no other rule; unblocking it then removes exactly those rules, so that
  the chain is what it was before.\<close>

theorem block_then_unblock_restores:
  assumes doc: "nft_documented nft chain accepts printed"
    and m: "rules_map c = Unpoisoned m" and untracked: "hm_get m pid = None"
    and none: "marked (pid_marker pid) (chain (filter_state c)) = []"
    and bodies: "block_bodies rd pid name = Some bodies" "list_all accepts bodies"
      "length (chain (filter_state c)) + length bodies < 2 ^ 64"
  shows "\<exists>c' c'' new m' m''. block_process nft rd pid name c = (Inr (), c')
    \<and> new \<noteq> [] \<and> map snd new = map printed bodies
    \<and> chain (filter_state c') = chain (filter_state c) @ new
    \<and> rules_map c' = Unpoisoned m' \<and> hm_get m' = (hm_get m)(pid \<mapsto> map fst new)
    \<and> unblock_process nft pid c' = (Inr (), c'')
    \<and> chain (filter_state c'') = chain (filter_state c)
    \<and> rules_map c'' = Unpoisoned m'' \<and> hm_get m'' = hm_get m"
proof -
  let ?c1 = "snd (setup_nftables nft c)"
  note prep = setup_documented [OF doc, of c]
  have m1: "rules_map ?c1 = Unpoisoned m" using prep(1) m by simp
  have td: "to_delete pid (pid_marker pid) m (chain (filter_state ?c1)) = []"
    using none untracked by (simp add: to_delete_def prep(2))
  obtain n2 where c2: "unblock_process nft pid ?c1
      = (Inr (), ?c1\<lparr>rules_map := Unpoisoned (hm_remove pid m), filter_state := n2\<rparr>)"
    and ch2: "chain n2 = chain (filter_state c)"
    using remove_tracked_documented [OF doc prefix_in_marker(1), of _ pid ?c1 m "[]" pid] m1 td prep(2)
    by (force simp: unblock_process_def find_rule_handles_for_pid_def [abs_def])
  let ?c2 = "?c1\<lparr>rules_map := Unpoisoned (hm_remove pid m), filter_state := n2\<rparr>"
  have bb: "bodies \<noteq> []" "\<forall>b \<in> set bodies. commented (block_comment pid name) b"
    using block_bodies_comment [OF bodies(1)] by auto
  obtain n3 new where c3: "install_rules nft (script_of bodies) pid (find_rule_handles nft (pid_marker pid))
        ''Inserted rules but could not find nft handles'' ?c2
      = (Inr (), ?c2\<lparr>filter_state := n3, rules_map := Unpoisoned (hm_insert pid (map fst new) (hm_remove pid m))\<rparr>)"
    and new: "new \<noteq> []" "map snd new = map printed bodies" "distinct (map fst new)"
      "fst ` set new \<inter> handles (chain (filter_state c)) = {}"
    and ch3: "chain n3 = chain (filter_state c) @ new"
    using install_documented [OF doc bb(1) bodies(2) _ bb(2) comment_marker prefix_in_marker(1), of ?c2 "hm_remove pid m" pid]
      none ch2 bodies(3) by (simp add: exE) blast
  let ?c3 = "?c2\<lparr>filter_state := n3, rules_map := Unpoisoned (hm_insert pid (map fst new) (hm_remove pid m))\<rparr>"
  have block: "block_process nft rd pid name c = (Inr (), ?c3)"
    using c2 c3 by (simp add: block_process_def Let_def block_rules_bodies bodies(1)
        find_rule_handles_for_pid_def [abs_def])
  let ?m3 = "hm_insert pid (map fst new) (hm_remove pid m)"
  have td3: "to_delete pid (pid_marker pid) ?m3 (chain (filter_state ?c3)) = map fst new"
    using new(1) by (cases new) (simp_all add: to_delete_def hm_simps)
  obtain n4 where c4: "unblock_process nft pid ?c3
      = (Inr (), ?c3\<lparr>rules_map := Unpoisoned (hm_remove pid ?m3), filter_state := n4\<rparr>)"
    and ch4: "chain n4 = filter (\<lambda>r. fst r \<notin> fst ` set new) (chain (filter_state c) @ new)"
    using remove_tracked_documented [OF doc prefix_in_marker(1), of _ pid ?c3 ?m3 "map fst new" pid]
      td3 new(3) ch3
    by (force simp: unblock_process_def find_rule_handles_for_pid_def [abs_def] handles_def)
  have "chain n4 = chain (filter_state c)"
    using new(4) unfolding ch4 handles_def by (auto simp: filter_id_conv filter_empty_conv)
  with block new(1,2) ch3 c4 show ?thesis
    using untracked
    by (intro exI [of _ ?c3] exI [of _ "?c3\<lparr>rules_map := Unpoisoned (hm_remove pid ?m3), filter_state := n4\<rparr>"]
        exI [of _ new]) (auto simp: hm_simps fun_eq_iff)
qed

section \<open>A concrete filter\<close>

text \<open>
  A filter whose state is a list of rules, those with a newline in their text left aside.
  It shows that the documented behaviour can be had.
\<close>

definition toy_chain :: "rule list \<Rightarrow> rule list" where
  "toy_chain n = filter (\<lambda>r. newline \<notin> set (snd r)) n"

definition toy_listing :: "rule list \<Rightarrow> string" where
  "toy_listing n = concat (map (\<lambda>r. rule_line r @ [newline]) (toy_chain n))"

definition toy_args :: "string list \<Rightarrow> rule list \<Rightarrow> nft_output \<times> rule list" where
  "toy_args args n =
     (if args = ''-a'' # list_args then (Exited True (toy_listing n) '''', n)
      else if args = flush_args then (Exited True '''' '''', [])
      else if length args = 7 \<and> take 6 args = take 6 (delete_args 0) then
        (case parse_dec (args ! 6) of
           None \<Rightarrow> (Exited False '''' ''syntax error'', n)
         | Some h \<Rightarrow> if h \<in> handles (toy_chain n) then (Exited True '''' '''', filter (\<lambda>r. fst r \<noteq> h) n)
             else (Exited False '''' ''No such file or directory'', n))
      else (Exited True '''' '''', n))"

definition toy_bodies :: "string \<Rightarrow> string list" where
  "toy_bodies script = map (drop (length rule_head)) (butlast (split_by (\<lambda>c. c = newline) script))"

definition toy_fresh :: "nat \<Rightarrow> rule list \<Rightarrow> u64 list" where
  "toy_fresh k n = take k (filter (\<lambda>h. h \<notin> handles n) (map of_nat [0..<length n + k]))"

definition toy_stdin :: "string \<Rightarrow> rule list \<Rightarrow> script_output \<times> rule list" where
  "toy_stdin script n =
     (let m = toy_chain n; bodies = toy_bodies script in
      (ScriptExited True '''' '''', m @ zip (toy_fresh (length bodies) m) bodies))"

definition toy_nft :: "rule list nft_cli" where
  "toy_nft = \<lparr>nft_args = toy_args, nft_stdin = toy_stdin\<rparr>"

lemma toy_fresh_ok:
  assumes "length n + k < 2 ^ 64"
  shows "length (toy_fresh k n) = k \<and> distinct (toy_fresh k n) \<and> set (toy_fresh k n) \<inter> handles n = {}"
proof -
  let ?cand = "map of_nat [0..<length n + k] :: u64 list"
  have inj: "inj_on (of_nat :: nat \<Rightarrow> u64) {0..<length n + k}"
  proof (rule inj_onI)
    fix a b assume "a \<in> {0..<length n + k}" "b \<in> {0..<length n + k}" "(of_nat a :: u64) = of_nat b"
    then have "unat (of_nat a :: u64) = unat (of_nat b :: u64)" "a < 2 ^ 64" "b < 2 ^ 64"
      using assms by auto
    then show "a = b" by (simp add: unat_of_nat)
  qed
  then have d: "distinct ?cand" by (simp add: distinct_map)
  have "card (set ?cand) = length n + k"
    unfolding distinct_card [OF d] by simp
  moreover have "card (handles n) \<le> length n"
    unfolding handles_def by (metis card_image_le card_length finite_set le_trans)
  ultimately have "k \<le> card (set ?cand - handles n)"
    using diff_card_le_card_Diff [of "handles n" "set ?cand"] by (simp add: handles_def)
  also have "set ?cand - handles n = set (filter (\<lambda>h. h \<notin> handles n) ?cand)" by auto
  finally have "k \<le> length (filter (\<lambda>h. h \<notin> handles n) ?cand)"
    using distinct_card [OF distinct_filter [OF d]] by metis
  then show ?thesis
    unfolding toy_fresh_def using d by (auto simp: distinct_take dest: in_set_takeD)
qed

lemma no_newline_rule_head: "newline \<notin> set rule_head"
  by code_simp

lemma toy_bodies_script: "\<forall>b \<in> set bodies. newline \<notin> set b \<Longrightarrow> toy_bodies (script_of bodies) = bodies"
proof -
  assume nl: "\<forall>b \<in> set bodies. newline \<notin> set b"
  then have "split_by (\<lambda>c. c = newline) (script_of bodies) = map (\<lambda>b. rule_head @ b) bodies @ [[]]"
  proof (induction bodies)
    case (Cons b bs)
    have "split_by (\<lambda>c. c = newline) ((rule_head @ b) @ newline # script_of bs)
        = (rule_head @ b) # split_by (\<lambda>c. c = newline) (script_of bs)"
      using Cons.prems no_newline_rule_head by (intro split_by_append_sep) auto
    with Cons show ?case by (simp add: script_of_def)
  qed (simp add: script_of_def)
  then show ?thesis by (simp add: toy_bodies_def o_def)
qed

lemma toy_lines: "str_lines (toy_listing n) = map rule_line (toy_chain n)"
proof -
  have "str_lines (concat (map (\<lambda>r. rule_line r @ [newline]) rs)) = map rule_line rs"
    if "\<forall>r \<in> set rs. newline \<notin> set (snd r)" for rs
    using that
  proof (induction rs)
    case (Cons r rs)
    have nl: "\<not> alnum newline" by (simp add: alnum_def newline_def)
    have ne: "newline \<notin> set '' # handle ''" by code_simp
    have "newline \<notin> set (rule_line r)"
      using Cons.prems nl ne show_word_alnum unfolding rule_line_def by auto
    moreover have "strip_cr (rule_line r) = rule_line r"
    proof -
      have "show_word (fst r) \<noteq> []" by (simp add: show_word_def)
      then have "last (rule_line r) \<in> set (show_word (fst r))"
        by (simp add: rule_line_def)
      then have "alnum (last (rule_line r))" by (rule show_word_alnum)
      moreover have "\<not> alnum (char_of (13 :: nat))" by (simp add: alnum_def)
      ultimately have "last (rule_line r) \<noteq> char_of (13 :: nat)" by auto
      then show ?thesis by (simp add: strip_cr_def)
    qed
    ultimately show ?case using Cons by (simp add: str_lines_line)
  qed simp
  then show ?thesis by (simp add: toy_listing_def toy_chain_def)
qed

lemma toy_delete:
  "toy_args (delete_args h) n =
     (if h \<in> handles (toy_chain n) then (Exited True '''' '''', filter (\<lambda>r. fst r \<noteq> h) n)
      else (Exited False '''' ''No such file or directory'', n))"
  by (simp add: toy_args_def delete_args_def list_args_def flush_args_def parse_dec_show_word)

lemma toy_other: "toy_args add_table_args n = (Exited True '''' '''', n)"
  "toy_args add_chain_args n = (Exited True '''' '''', n)"
  "toy_args flush_args n = (Exited True '''' '''', [])"
  by (simp_all add: toy_args_def add_table_args_def add_chain_args_def list_args_def flush_args_def delete_args_def)

lemma toy_documented: "nft_documented toy_nft toy_chain (\<lambda>b. newline \<notin> set b) (\<lambda>b. b)"
  unfolding nft_documented_def
proof (intro conjI allI impI)
  fix n
  show "\<exists>before after out. nft_args toy_nft (''-a'' # list_args) n = (Exited True out '''', n)
      \<and> str_lines out = before @ map rule_line (toy_chain n) @ after
      \<and> (\<forall>l \<in> set (before @ after). \<not> contains RULE_COMMENT_PREFIX l)"
    by (intro exI [of _ "[]"] exI [of _ "toy_listing n"]) (simp add: toy_nft_def toy_args_def toy_lines)
next
  fix n h
  have "toy_chain (filter (\<lambda>r. fst r \<noteq> h) n) = filter (\<lambda>r. fst r \<noteq> h) (toy_chain n)"
    by (simp add: toy_chain_def conj_commute)
  then show "if h \<in> handles (toy_chain n)
      then \<exists>out err n'. nft_args toy_nft (delete_args h) n = (Exited True out err, n')
        \<and> toy_chain n' = filter (\<lambda>r. fst r \<noteq> h) (toy_chain n)
      else \<exists>out err. nft_args toy_nft (delete_args h) n = (Exited False out err, n)"
    by (simp add: toy_nft_def toy_delete)
next
  fix n and bodies :: "string list"
  assume b: "bodies \<noteq> [] \<and> list_all (\<lambda>b. newline \<notin> set b) bodies \<and> length (toy_chain n) + length bodies < 2 ^ 64"
  then have bs: "toy_bodies (script_of bodies) = bodies" by (intro toy_bodies_script) (simp add: list_all_iff)
  let ?hs = "toy_fresh (length bodies) (toy_chain n)"
  have hs: "length ?hs = length bodies \<and> distinct ?hs \<and> set ?hs \<inter> handles (toy_chain n) = {}"
    using b by (intro toy_fresh_ok) simp
  have "toy_chain (toy_chain n @ zip ?hs bodies) = toy_chain n @ zip ?hs bodies"
    using b by (auto simp: toy_chain_def filter_id_conv list_all_iff dest: set_zip_rightD)
  with hs show "\<exists>out err n' hs. nft_stdin toy_nft (script_of bodies) n = (ScriptExited True out err, n')
      \<and> length hs = length bodies \<and> distinct hs \<and> set hs \<inter> handles (toy_chain n) = {}
      \<and> toy_chain n' = toy_chain n @ zip hs (map (\<lambda>b. b) bodies)"
    by (intro exI [of _ "''''"] exI [of _ "toy_chain n @ zip ?hs bodies"] exI [of _ ?hs])
       (simp add: toy_nft_def toy_stdin_def bs Let_def)
next
  fix a comment b
  show "contains comment (a @ ''comment '' @ quote @ comment @ quote @ b)"
    using contains_infix [of comment "a @ ''comment '' @ quote" "quote @ b"] by simp
qed (simp_all add: toy_nft_def toy_other toy_chain_def)

text \<open>A /proc in which PID 42 has one TCP socket on port 443.\<close>

definition web_proc :: "string \<Rightarrow> string option" where
  "web_proc path = (if path = ''/proc/42/net/tcp''
     then Some (''h'' @ [newline] @ ''0: 0:01BB 0:0 0A'' @ [newline]) else None)"

definition web_rule :: rule where
  "web_rule = (9, ''tcp dport { 22 } accept'')"

lemma web_ports: "collect_pid_ports web_proc 42 [''tcp'', ''tcp6''] = {443}"
  "collect_pid_ports web_proc 42 [''udp'', ''udp6''] = {}"
proof -
  have files: "''/proc/'' @ show_word (42 :: u32) @ ''/net/'' @ f = ''/proc/42/net/'' @ f" for f
  proof -
    have "show_nat 42 = ''42''" by code_simp
    then show ?thesis by (simp add: show_word_def)
  qed
  have lines: "str_lines (''h'' @ [newline] @ ''0: 0:01BB 0:0 0A'' @ [newline]) = [''h'', ''0: 0:01BB 0:0 0A'']"
    by code_simp
  have "split_whitespace ''0: 0:01BB 0:0 0A'' = [''0:'', ''0:01BB'', ''0:0'', ''0A'']"
    by code_simp
  moreover have "(from_str_radix 16 ''01BB'' :: u16 option) = Some 443"
    by (simp add: from_str_radix_def to_digit_def)
  ultimately have "port_of_line ''0: 0:01BB 0:0 0A'' = Some 443"
    by (simp add: port_of_line_def PROC_NET_PORT_COLUMN_COUNT_def parse_port_from_proc_addr_def)
  then show "collect_pid_ports web_proc 42 [''tcp'', ''tcp6''] = {443}"
    "collect_pid_ports web_proc 42 [''udp'', ''udp6''] = {}"
    unfolding collect_pid_ports_def fold.simps o_def id_def files
    by (simp_all add: web_proc_def lines [simplified])
qed

theorem block_then_unblock_restores_witness:
  "\<exists>c' c'' new m' m''. block_process toy_nft web_proc 42 ''httpd'' \<lparr>rules_map = Unpoisoned [], filter_state = [web_rule]\<rparr>
      = (Inr (), c')
    \<and> new \<noteq> [] \<and> map snd new = map (\<lambda>b. b) [port_body ''tcp'' {443} '''' (block_comment 42 ''httpd'')]
    \<and> toy_chain (filter_state c') = toy_chain (filter_state \<lparr>rules_map = Unpoisoned [], filter_state = [web_rule]\<rparr>) @ new
    \<and> rules_map c' = Unpoisoned m' \<and> hm_get m' = (hm_get [])(42 \<mapsto> map fst new)
    \<and> unblock_process toy_nft 42 c' = (Inr (), c'')
    \<and> toy_chain (filter_state c'') = toy_chain (filter_state \<lparr>rules_map = Unpoisoned [], filter_state = [web_rule]\<rparr>)
    \<and> rules_map c'' = Unpoisoned m'' \<and> hm_get m'' = hm_get []"
proof (rule block_then_unblock_restores [OF toy_documented])
  let ?c = "\<lparr>rules_map = Unpoisoned [], filter_state = [web_rule]\<rparr>"
  show "rules_map ?c = Unpoisoned []" "hm_get [] 42 = None" by simp_all
  have chain: "toy_chain (filter_state ?c) = [web_rule]" by code_simp
  have "\<not> contains (pid_marker 42) (rule_line web_rule)" by code_simp
  then show "marked (pid_marker 42) (toy_chain (filter_state ?c)) = []"
    unfolding chain by (simp add: marked_def)
  show "block_bodies web_proc 42 ''httpd'' = Some [port_body ''tcp'' {443} '''' (block_comment 42 ''httpd'')]"
    by (simp add: block_bodies_def web_ports Let_def)
  show "length (toy_chain (filter_state ?c)) + length [port_body ''tcp'' {443} '''' (block_comment 42 ''httpd'')] < 2 ^ 64"
    unfolding chain by simp
  have "newline \<notin> set (port_body ''tcp'' {443} '''' (block_comment 42 ''httpd''))"
    by code_simp
  then show "list_all (\<lambda>b. newline \<notin> set b) [port_body ''tcp'' {443} '''' (block_comment 42 ''httpd'')]"
    by simp
qed

section \<open>Stale handles\<close>

lemma unblock_untracked:
  assumes doc: "nft_documented nft chain accepts printed" and m: "rules_map c = Unpoisoned m"
    and none: "hm_get m pid = None" and uniq: "distinct (map fst (chain (filter_state c)))"
  shows "\<exists>n'. unblock_process nft pid c = (Inr (), c\<lparr>rules_map := Unpoisoned (hm_remove pid m), filter_state := n'\<rparr>)
    \<and> chain n' = filter (\<lambda>r. \<not> contains (pid_marker pid) (rule_line r)) (chain (filter_state c))"
proof -
  let ?ch = "chain (filter_state c)"
  let ?hs = "map fst (marked (pid_marker pid) ?ch)"
  have "?hs = to_delete pid (pid_marker pid) m ?ch" by (simp add: to_delete_def none)
  moreover have "distinct ?hs" using uniq by (simp add: marked_def distinct_map_filter)
  moreover have "set ?hs \<subseteq> handles ?ch" by (auto simp: marked_def handles_def)
  ultimately obtain n' where n': "unblock_process nft pid c
      = (Inr (), c\<lparr>rules_map := Unpoisoned (hm_remove pid m), filter_state := n'\<rparr>)"
    and ch: "chain n' = filter (\<lambda>r. fst r \<notin> set ?hs) ?ch"
    using remove_tracked_documented [OF doc prefix_in_marker(1) _ m, of _ pid ?hs pid]
    by (force simp: unblock_process_def find_rule_handles_for_pid_def [abs_def])
  have "fst r \<in> set ?hs \<longleftrightarrow> contains (pid_marker pid) (rule_line r)" if "r \<in> set ?ch" for r
    using uniq that by (auto simp: marked_def distinct_map dest: inj_onD)
  then have "filter (\<lambda>r. fst r \<notin> set ?hs) ?ch = filter (\<lambda>r. \<not> contains (pid_marker pid) (rule_line r)) ?ch"
    by (intro filter_cong) auto
  with n' ch show ?thesis by auto
qed

lemma stale_handle_fails:
  assumes doc: "nft_documented nft chain accepts printed" and m: "rules_map c = Unpoisoned m"
    and tracked: "hm_get m key = Some (h # hs)" and gone: "h \<notin> handles (chain (filter_state c))"
  shows "\<exists>e. remove_tracked nft key search c = (Inl e, c\<lparr>rules_map := Unpoisoned (hm_remove key m)\<rparr>)"
proof -
  let ?c = "c\<lparr>rules_map := Unpoisoned (hm_remove key m)\<rparr>"
  obtain e where "run_nft_command nft (delete_args h) False ?c = (Inl e, ?c)"
    using nft_documentedD(5) [OF doc, of h "filter_state ?c"] gone
    by (auto simp: run_nft_command_def)
  then show ?thesis by (simp add: remove_tracked_def m tracked Let_def)
qed


definition left_rule :: rule where
  "left_rule = (8, port_body ''udp'' {53} '''' (block_comment 42 ''dns''))"


text \<open>C25. An unblock of a process that has only a rate limit, as every new block begins with,
  deletes the rate-limit rules too, for they carry the same marker; the handles kept for the
  limit are then stale, and the next attempt to set a limit fails.\<close>

theorem unblock_breaks_rate_limit:
  assumes "nft_documented nft chain accepts printed" and "rules_map c = Unpoisoned m"
    and "hm_get m pid = None" and "distinct (map fst (chain (filter_state c)))"
    and "hm_get m (sentinel pid) = Some (h # hs)" and "sentinel pid \<noteq> pid"
    and "\<forall>r \<in> set (chain (filter_state c)). fst r = h \<longrightarrow> contains (pid_marker pid) (rule_line r)"
  shows "\<exists>c'. unblock_process nft pid c = (Inr (), c') \<and> h \<notin> handles (chain (filter_state c'))
    \<and> (\<exists>e c''. rate_limit_process nft rd pid rate c' = (Inl e, c''))"
proof -
  obtain n' where c': "unblock_process nft pid c
      = (Inr (), c\<lparr>rules_map := Unpoisoned (hm_remove pid m), filter_state := n'\<rparr>)"
    and ch: "chain n' = filter (\<lambda>r. \<not> contains (pid_marker pid) (rule_line r)) (chain (filter_state c))"
    using unblock_untracked [OF assms(1-4)] by blast
  let ?c = "c\<lparr>rules_map := Unpoisoned (hm_remove pid m), filter_state := n'\<rparr>"
  have gone: "h \<notin> handles (chain n')" using assms(7) by (auto simp: handles_def ch)
  let ?d = "snd (setup_nftables nft ?c)"
  have d: "rules_map ?d = Unpoisoned (hm_remove pid m)" "chain (filter_state ?d) = chain n'"
    using setup_documented [OF assms(1), of ?c] by simp_all
  have "hm_get (hm_remove pid m) (sentinel pid) = Some (h # hs)"
    using assms(5,6) by (simp add: hm_simps)
  from stale_handle_fails [OF assms(1) d(1) this] gone d(2)
  obtain e where "remove_rate_limit_rules_for_pid nft pid ?d
      = (Inl e, ?d\<lparr>rules_map := Unpoisoned (hm_remove (sentinel pid) (hm_remove pid m))\<rparr>)"
    by (auto simp: remove_rate_limit_rules_for_pid_def)
  then have "\<exists>e c''. rate_limit_process nft rd pid rate ?c = (Inl e, c'')"
    by (simp add: rate_limit_process_def Let_def)
  with c' gone show ?thesis by (intro exI [of _ ?c]) simp
qed

definition limit_rule :: rule where
  "limit_rule = (8, port_body ''udp'' {53} '''' (RULE_COMMENT_PREFIX @ show_word (42 :: u32) @ ''-rate-limit''))"

theorem unblock_breaks_rate_limit_witness:
  "\<exists>c'. unblock_process toy_nft 42 \<lparr>rules_map = Unpoisoned [(sentinel 42, [8])], filter_state = [limit_rule]\<rparr> = (Inr (), c')
    \<and> 8 \<notin> handles (toy_chain (filter_state c'))
    \<and> (\<exists>e c''. rate_limit_process toy_nft web_proc 42 100 c' = (Inl e, c''))"
proof (rule unblock_breaks_rate_limit [OF toy_documented, where m = "[(sentinel 42, [8])]" and h = 8 and hs = "[]"])
  have "contains (pid_marker 42) (rule_line limit_rule)" by code_simp
  then show "\<forall>r \<in> set (toy_chain (filter_state \<lparr>rules_map = Unpoisoned [(sentinel 42, [8])], filter_state = [limit_rule]\<rparr>)).
      fst r = 8 \<longrightarrow> contains (pid_marker 42) (rule_line r)"
    by (simp add: toy_chain_def)
qed (simp_all add: hm_get_def sentinel_def toy_chain_def)

section \<open>Removing everything\<close>

text \<open>\<open>unblock_all\<close>, which runs on every clean exit, empties the output chain of the table
  \<open>inet filter\<close>: the rules of netmon are gone and its map is cleared, and so are the rules
  that were in that chain before netmon started.\<close>

theorem unblock_all_empties_the_chain:
  assumes "nft_documented nft chain accepts printed" and "rules_map c = Unpoisoned m"
  shows "\<exists>c'. unblock_all nft c = (Inr (), c') \<and> chain (filter_state c') = [] \<and> rules_map c' = Unpoisoned []"
proof -
  obtain out err n' where "nft_args nft flush_args (filter_state c) = (Exited True out err, n')" "chain n' = []"
    using nft_documentedD(7) [OF assms(1)] by blast
  with assms(2) show ?thesis
    by (simp add: unblock_all_def run_nft_command_def flush_args_def)
qed

theorem unblock_all_empties_the_chain_witness:
  "\<exists>c'. unblock_all toy_nft \<lparr>rules_map = Unpoisoned [], filter_state = [web_rule]\<rparr> = (Inr (), c')
    \<and> toy_chain (filter_state c') = [] \<and> rules_map c' = Unpoisoned []"
  by (rule unblock_all_empties_the_chain [OF toy_documented]) simp

section \<open>Markers\<close>

lemma contains_skip: "p \<noteq> [] \<Longrightarrow> hd p \<notin> set ds \<Longrightarrow> contains p (ds @ s) = contains p s"
proof (induction ds)
  case (Cons d ds)
  then have "\<not> starts_with p (d # ds @ s)" by (cases p) (auto simp: starts_with_def)
  with Cons show ?case by simp
qed simp

lemma sign_prefix:
  assumes "c \<notin> set a" and "c \<notin> set b"
  shows "starts_with (a @ [c]) (b @ c # t) \<longleftrightarrow> a = b"
proof -
  have "a = b" if "b @ c # t = (a @ [c]) @ u" for u
    using that assms
  proof (induction a arbitrary: b)
    case Nil
    then show ?case by (cases b) auto
  next
    case (Cons x xs)
    then show ?case by (cases b) auto
  qed
  then show ?thesis by (auto simp: starts_with_iff)
qed

lemma marker_in_comment:
  "contains (pid_marker p) (block_comment q name)
     \<longleftrightarrow> p = q \<or> contains (pid_marker p) (replace_char (CHR 0x22) (CHR ''_'') name)"
proof -
  let ?name = "replace_char (CHR 0x22) (CHR ''_'') name"
  have dash: "CHR ''-'' \<notin> set (show_word w)" "CHR ''n'' \<notin> set (show_word w)" for w :: u32
  proof -
    have "\<not> alnum (CHR ''-'')" "\<not> alnum (CHR ''n'')" by (simp_all add: alnum_def)
    then show "CHR ''-'' \<notin> set (show_word w)" "CHR ''n'' \<notin> set (show_word w)"
      using show_word_alnum by auto
  qed
  have "starts_with (pid_marker p) (block_comment q name)
      \<longleftrightarrow> starts_with (show_word p @ [CHR ''-'']) (show_word q @ CHR ''-'' # ?name)"
    by (simp add: pid_marker_def block_comment_def starts_with_def RULE_COMMENT_PREFIX_def)
  also have "\<dots> \<longleftrightarrow> show_word p = show_word q" by (rule sign_prefix) (fact dash)+
  also have "\<dots> \<longleftrightarrow> p = q" using show_nat_inj by (auto simp: show_word_def word_unat_eq_iff)
  finally have start: "starts_with (pid_marker p) (block_comment q name) \<longleftrightarrow> p = q" .
  have skip: "contains (pid_marker p) (show_word q @ ''-'' @ ?name) \<longleftrightarrow> contains (pid_marker p) ?name"
    using contains_skip [of "pid_marker p" "show_word q @ ''-''" ?name] dash(2)
    by (simp add: pid_marker_def RULE_COMMENT_PREFIX_def)
  have "contains (pid_marker p) (block_comment q name)
      \<longleftrightarrow> starts_with (pid_marker p) (block_comment q name)
        \<or> contains (pid_marker p) (show_word q @ ''-'' @ ?name)"
    unfolding block_comment_def RULE_COMMENT_PREFIX_def
    by (simp add: pid_marker_def RULE_COMMENT_PREFIX_def starts_with_def)
  with start skip show ?thesis by simp
qed

text \<open>The marker of a process finds the rules of that process and not those of another, of
  whatever PID (5 is not confused with 15 or 51), unless the name of the other process
  contains the text of the marker: names are free to do that.\<close>

theorem markers_tell_pids_apart:
  "contains (pid_marker p) (block_comment q name) = (p = q
     \<or> contains (pid_marker p) (replace_char (CHR 0x22) (CHR ''_'') name))
   \<and> contains (pid_marker 5) (block_comment 7 ''netmon-pid-5-'')"
proof -
  have "contains (pid_marker 5) (replace_char (CHR 0x22) (CHR ''_'') ''netmon-pid-5-'')" by code_simp
  then show ?thesis using marker_in_comment by blast
qed


definition impostor_rule :: rule where
  "impostor_rule = (8, port_body ''udp'' {53} '''' (block_comment 7 ''netmon-pid-5-''))"


section \<open>Rate limits\<close>

definition limit_bodies :: "(string \<Rightarrow> string option) \<Rightarrow> u32 \<Rightarrow> u32 \<Rightarrow> string list option" where
  "limit_bodies rd pid rate =
     (let tcp = collect_pid_ports rd pid [''tcp'', ''tcp6'']; udp = collect_pid_ports rd pid [''udp'', ''udp6''];
          comment = RULE_COMMENT_PREFIX @ show_word pid @ ''-rate-limit'';
          limit = ''limit rate over '' @ rate_expr rate @ '' ''
      in if tcp = {} \<and> udp = {} then
           map_option (\<lambda>uid. [with_comment (''meta skuid '' @ show_word uid @ '' '' @ limit) comment '' drop''])
             (read_uid_for_pid rd pid)
         else Some ((if tcp = {} then [] else [port_body ''tcp'' tcp limit comment])
           @ (if udp = {} then [] else [port_body ''udp'' udp limit comment])))"

lemma rate_limit_rules_bodies:
  "rate_limit_rules rd pid rate = map_option script_of (limit_bodies rd pid rate)"
  by (simp add: rate_limit_rules_def limit_bodies_def Let_def script_of_def build_rate_limit_ruleset_def
      port_rule_def port_body_def with_comment_def uid_rule_def option.map_comp o_def)

definition limit_marker :: "u32 \<Rightarrow> string" where
  "limit_marker pid = RULE_COMMENT_PREFIX @ show_word pid @ ''-rate-limit''"

lemma limit_bodies_rate:
  assumes "limit_bodies rd pid rate = Some bodies"
  shows "bodies \<noteq> [] \<and> (\<forall>b \<in> set bodies. commented (limit_marker pid) b
    \<and> contains (''limit rate over '' @ show_word rate @ '' kbytes/second'') b)"
proof -
  have c: "contains (''limit rate over '' @ show_word rate @ '' kbytes/second'')
      (with_comment (s @ ''limit rate over '' @ rate_expr rate @ '' '') comment z)" for s comment z
    using contains_infix [of "''limit rate over '' @ show_word rate @ '' kbytes/second''" s
        "'' '' @ ''comment '' @ quote @ comment @ quote @ z"]
    by (simp add: with_comment_def rate_expr_def)
  have p: "contains (''limit rate over '' @ show_word rate @ '' kbytes/second'')
      (port_body proto ports (''limit rate over '' @ rate_expr rate @ '' '') comment)" for proto ports comment
    using c [of "proto @ '' sport { '' @ join_ports ports @ '' } ''"]
    unfolding port_body_def append_assoc .
  have u: "contains (''limit rate over '' @ show_word rate @ '' kbytes/second'')
      (with_comment (''meta skuid '' @ show_word uid @ '' '' @ ''limit rate over '' @ rate_expr rate @ '' '') comment z)"
    for uid :: u32 and comment z
    using c [of "''meta skuid '' @ show_word uid @ '' ''"] unfolding append_assoc .
  have com: "commented comment (port_body proto ports limit comment)" for proto ports limit comment
    by (simp add: port_body_def)
  from assms show ?thesis
    unfolding limit_bodies_def Let_def limit_marker_def
    using p u com by (auto split: if_splits simp del: append_Cons)
qed

text \<open>
  On a filter that behaves as documented, a rate limit replaces the rules of the limit before
  it, those tracked or else those found by their marker, and tracks its own.
\<close>

lemma rate_limit_step:
  assumes doc: "nft_documented nft chain accepts printed" and m: "rules_map c = Unpoisoned m"
    and hs: "hs = to_delete (sentinel pid) (limit_marker pid) m (chain (filter_state c))"
      "distinct hs" "set hs \<subseteq> handles (chain (filter_state c))"
    and kept: "kept = filter (\<lambda>r. fst r \<notin> set hs) (chain (filter_state c))" "marked (limit_marker pid) kept = []"
    and bodies: "limit_bodies rd pid rate = Some bodies" "list_all accepts bodies"
      "length kept + length bodies < 2 ^ 64"
  shows "\<exists>c' new m'. rate_limit_process nft rd pid rate c = (Inr (), c')
    \<and> new \<noteq> [] \<and> map snd new = map printed bodies \<and> distinct (map fst new)
    \<and> fst ` set new \<inter> handles kept = {} \<and> chain (filter_state c') = kept @ new
    \<and> rules_map c' = Unpoisoned m' \<and> hm_get m' = (hm_get m)(sentinel pid \<mapsto> map fst new)"
proof -
  let ?c1 = "snd (setup_nftables nft c)"
  note prep = setup_documented [OF doc, of c]
  have m1: "rules_map ?c1 = Unpoisoned m" using prep(1) m by simp
  have mk: "contains RULE_COMMENT_PREFIX (limit_marker pid)"
    unfolding limit_marker_def by (rule prefix_in_marker(2))
  have search: "find_rule_handles_for_pid_comment nft pid ''rate-limit'' = find_rule_handles nft (limit_marker pid)"
    by (rule ext) (simp add: find_rule_handles_for_pid_comment_def limit_marker_def)
  obtain n2 where c2: "remove_rate_limit_rules_for_pid nft pid ?c1
      = (Inr (), ?c1\<lparr>rules_map := Unpoisoned (hm_remove (sentinel pid) m), filter_state := n2\<rparr>)"
    and ch2: "chain n2 = kept"
    using remove_tracked_documented [OF doc mk search m1, of hs "sentinel pid"] hs prep(2)
    by (auto simp: remove_rate_limit_rules_for_pid_def kept(1))
  let ?c2 = "?c1\<lparr>rules_map := Unpoisoned (hm_remove (sentinel pid) m), filter_state := n2\<rparr>"
  have bb: "bodies \<noteq> []" "\<forall>b \<in> set bodies. commented (limit_marker pid) b"
    using limit_bodies_rate [OF bodies(1)] by auto
  have self: "contains (limit_marker pid) (limit_marker pid)"
    using contains_infix [of "limit_marker pid" "[]" "[]"] by simp
  obtain n3 new where "install_rules nft (script_of bodies) (sentinel pid) (find_rule_handles nft (limit_marker pid))
        ''Inserted rate-limit rules but could not find nft handles'' ?c2
      = (Inr (), ?c2\<lparr>filter_state := n3,
          rules_map := Unpoisoned (hm_insert (sentinel pid) (map fst new) (hm_remove (sentinel pid) m))\<rparr>)"
    and new: "new \<noteq> []" "map snd new = map printed bodies" "distinct (map fst new)"
      "fst ` set new \<inter> handles kept = {}" "chain n3 = kept @ new"
    using install_documented [OF doc bb(1) bodies(2) _ bb(2) self mk, of ?c2 "hm_remove (sentinel pid) m" "sentinel pid"]
      kept(2) ch2 bodies(3) by (simp add: exE) blast
  with c2 bodies(1) have "rate_limit_process nft rd pid rate c = (Inr (), ?c2\<lparr>filter_state := n3,
          rules_map := Unpoisoned (hm_insert (sentinel pid) (map fst new) (hm_remove (sentinel pid) m))\<rparr>)"
    by (simp add: rate_limit_process_def Let_def rate_limit_rules_bodies search)
  with new show ?thesis by (auto simp: hm_simps fun_eq_iff)
qed

lemma rate_limit_documented:
  assumes "nft_documented nft chain accepts printed"
    and "rules_map c = Unpoisoned m" and "hm_get m (sentinel pid) = None"
    and "marked (limit_marker pid) (chain (filter_state c)) = []"
    and "limit_bodies rd pid rate = Some bodies" "list_all accepts bodies"
      "length (chain (filter_state c)) + length bodies < 2 ^ 64"
  shows "\<exists>c' new m'. rate_limit_process nft rd pid rate c = (Inr (), c')
    \<and> new \<noteq> [] \<and> map snd new = map printed bodies \<and> distinct (map fst new)
    \<and> fst ` set new \<inter> handles (chain (filter_state c)) = {}
    \<and> chain (filter_state c') = chain (filter_state c) @ new
    \<and> rules_map c' = Unpoisoned m' \<and> hm_get m' = (hm_get m)(sentinel pid \<mapsto> map fst new)"
  using assms by (intro rate_limit_step [where hs = "[]", OF assms(1,2)]) (simp_all add: to_delete_def)

text \<open>C10. Limiting a process again replaces its limit. On a packet filter that behaves as nft
  documents, two limits in a row on a process that had none leave the rules the chain had
  before, followed by the rules of the second rate and by no rule of the first, and the
  handles tracked are exactly those of the rules in force; the sockets of the process may have
  changed in between.\<close>

theorem rate_limit_replaces:
  assumes "nft_documented nft chain accepts printed"
    and "rules_map c = Unpoisoned m" and "hm_get m (sentinel pid) = None"
    and "marked (limit_marker pid) (chain (filter_state c)) = []"
    and "limit_bodies rd pid rate = Some bodies" "list_all accepts bodies"
      "length (chain (filter_state c)) + length bodies < 2 ^ 64"
    and "limit_bodies rd' pid rate' = Some bodies'" "list_all accepts bodies'"
      "length (chain (filter_state c)) + length bodies' < 2 ^ 64"
  shows "\<exists>c' c'' new m'. rate_limit_process nft rd pid rate c = (Inr (), c')
    \<and> map snd (chain (filter_state c')) = map snd (chain (filter_state c)) @ map printed bodies
    \<and> rate_limit_process nft rd' pid rate' c' = (Inr (), c'')
    \<and> chain (filter_state c'') = chain (filter_state c) @ new \<and> map snd new = map printed bodies'
    \<and> rules_map c'' = Unpoisoned m' \<and> hm_get m' = (hm_get m)(sentinel pid \<mapsto> map fst new)"
proof -
  let ?ch = "chain (filter_state c)"
  obtain c' old m1 where first: "rate_limit_process nft rd pid rate c = (Inr (), c')"
    and old: "old \<noteq> []" "map snd old = map printed bodies" "distinct (map fst old)"
      "fst ` set old \<inter> handles ?ch = {}" "chain (filter_state c') = ?ch @ old"
    and m1: "rules_map c' = Unpoisoned m1" "hm_get m1 = (hm_get m)(sentinel pid \<mapsto> map fst old)"
    using rate_limit_documented [OF assms(1-7)] by (elim exE conjE)
  have hs: "map fst old = to_delete (sentinel pid) (limit_marker pid) m1 (chain (filter_state c'))"
    using old(1) by (cases old) (simp_all add: to_delete_def m1(2))
  have sub: "set (map fst old) \<subseteq> handles (chain (filter_state c'))"
    by (auto simp: handles_def old(5))
  have kept: "?ch = filter (\<lambda>r. fst r \<notin> set (map fst old)) (chain (filter_state c'))"
  proof -
    have "filter (\<lambda>r. fst r \<notin> set (map fst old)) ?ch = ?ch"
      using old(4) by (auto simp: filter_id_conv handles_def)
    moreover have "filter (\<lambda>r. fst r \<notin> set (map fst old)) old = []" by (simp add: filter_empty_conv)
    ultimately show ?thesis by (simp add: old(5))
  qed
  from rate_limit_step [OF assms(1) m1(1) hs old(3) sub kept assms(4,8-10)]
  obtain c'' new m2 where "rate_limit_process nft rd' pid rate' c' = (Inr (), c'')"
    "map snd new = map printed bodies'" "chain (filter_state c'') = ?ch @ new"
    "rules_map c'' = Unpoisoned m2" "hm_get m2 = (hm_get m1)(sentinel pid \<mapsto> map fst new)"
    by (elim exE conjE)
  with first old(2,5) m1(2) show ?thesis
    by (intro exI [of _ c'] exI [of _ c''] exI [of _ new] exI [of _ m2]) simp
qed

theorem rate_limit_replaces_witness:
  "\<exists>c' c'' new m'. rate_limit_process toy_nft web_proc 42 100 \<lparr>rules_map = Unpoisoned [], filter_state = [web_rule]\<rparr>
      = (Inr (), c')
    \<and> map snd (toy_chain (filter_state c')) = map snd [web_rule] @ map (\<lambda>b. b)
        [port_body ''tcp'' {443} (''limit rate over '' @ rate_expr 100 @ '' '') (limit_marker 42)]
    \<and> rate_limit_process toy_nft web_proc 42 200 c' = (Inr (), c'')
    \<and> toy_chain (filter_state c'') = [web_rule] @ new
    \<and> map snd new = map (\<lambda>b. b) [port_body ''tcp'' {443} (''limit rate over '' @ rate_expr 200 @ '' '') (limit_marker 42)]
    \<and> rules_map c'' = Unpoisoned m' \<and> hm_get m' = (hm_get [])(sentinel 42 \<mapsto> map fst new)"
proof -
  let ?c = "\<lparr>rules_map = Unpoisoned [], filter_state = [web_rule]\<rparr>"
  let ?b = "\<lambda>rate. [port_body ''tcp'' {443} (''limit rate over '' @ rate_expr rate @ '' '') (limit_marker 42)]"
  have chain: "toy_chain (filter_state ?c) = [web_rule]" by code_simp
  have marked: "marked (limit_marker 42) (toy_chain (filter_state ?c)) = []"
  proof -
    have "\<not> contains (limit_marker 42) (rule_line web_rule)" by code_simp
    then show ?thesis unfolding chain by (simp add: marked_def)
  qed
  have bodies: "limit_bodies web_proc 42 rate = Some (?b rate)" for rate
    by (simp add: limit_bodies_def web_ports Let_def limit_marker_def)
  have nl: "newline \<notin> set (hd (?b 100))" "newline \<notin> set (hd (?b 200))" by code_simp+
  have len: "length (toy_chain (filter_state ?c)) + length (?b rate) < 2 ^ 64" for rate
    unfolding chain by simp
  from rate_limit_replaces [OF toy_documented _ _ marked bodies [of 100] _ len bodies [of 200] _ len] nl
  show ?thesis unfolding chain by simp
qed

end
