(* ===== verification/Pid_Map.thy ===== *)
theory Pid_Map
  imports Rust_Text
begin

text \<open>
  The scan of crates/resolver/src/pid_map.rs that finds, for each socket inode, a process
  and thread holding it open. /proc is a parameter: the entries of a directory (an entry
  can itself be an error), the text of a file and the target of a link. \<open>None\<close> in a result
  is a panic, which does not happen.

  The scan is shown to compute the last owner of each inode in an explicit list of all
  descriptors in scan order; so every owner it reports is backed by a link, and for threads
  that share one descriptor table it always reports the thread listed last.
\<close>

section \<open>The scan\<close>

record procfs =
  fs_read_dir :: "string \<Rightarrow> string option list option"
  fs_read_file :: "string \<Rightarrow> string option"
  fs_read_link :: "string \<Rightarrow> string option"

type_synonym inode_pid_entry = "u32 \<times> u32 \<times> string \<times> string \<times> u32"
type_synonym inode_pid_map = "(u64, inode_pid_entry) hashmap"

definition path_join :: "string \<Rightarrow> string \<Rightarrow> string" where
  "path_join dir name = dir @ ''/'' @ name"

definition socket_prefix :: string where
  "socket_prefix = ''socket:[''"

definition parse_socket_inode :: "string \<Rightarrow> u64 option option" where
  "parse_socket_inode target_text =
     (let prefix = socket_prefix in
      if \<not> starts_with prefix target_text \<or> \<not> ends_with '']'' target_text then Some None
      else do {
        inode_text \<leftarrow> slice target_text (length prefix) (length target_text - 1);
        Some (parse_dec inode_text)
      })"

definition read_comm :: "procfs \<Rightarrow> u32 \<Rightarrow> u32 option \<Rightarrow> string option" where
  "read_comm fs pid tid =
     (let path = (case tid of
            Some tid \<Rightarrow> ''/proc/'' @ show_word pid @ ''/task/'' @ show_word tid @ ''/comm''
          | None \<Rightarrow> ''/proc/'' @ show_word pid @ ''/comm'')
      in map_option trim (fs_read_file fs path))"

fun effective_uid_of_lines :: "string list \<Rightarrow> u32 option" where
  "effective_uid_of_lines [] = None"
| "effective_uid_of_lines (line # lines) =
     (case strip_prefix ''Uid:'' line of
        None \<Rightarrow> effective_uid_of_lines lines
      | Some rest \<Rightarrow>
          (let columns = split_whitespace rest in
           if 2 \<le> length columns then parse_dec (columns ! 1) else effective_uid_of_lines lines))"

definition read_process_effective_uid :: "procfs \<Rightarrow> u32 \<Rightarrow> u32 option" where
  "read_process_effective_uid fs pid =
     (case fs_read_file fs (''/proc/'' @ show_word pid @ ''/status'') of
        None \<Rightarrow> None
      | Some status \<Rightarrow> effective_uid_of_lines (str_lines status))"

fun scan_fd_entries ::
  "procfs \<Rightarrow> string \<Rightarrow> inode_pid_entry \<Rightarrow> string option list \<Rightarrow> inode_pid_map \<Rightarrow> inode_pid_map option" where
  "scan_fd_entries fs fd_path owner [] m = Some m"
| "scan_fd_entries fs fd_path owner (None # es) m = scan_fd_entries fs fd_path owner es m"
| "scan_fd_entries fs fd_path owner (Some name # es) m =
     (case fs_read_link fs (path_join fd_path name) of
        None \<Rightarrow> scan_fd_entries fs fd_path owner es m
      | Some symlink_target \<Rightarrow> do {
          inode \<leftarrow> parse_socket_inode symlink_target;
          scan_fd_entries fs fd_path owner es
            (case inode of None \<Rightarrow> m | Some socket_inode \<Rightarrow> hm_insert socket_inode owner m)
        })"

definition scan_fd_dir ::
  "procfs \<Rightarrow> string \<Rightarrow> u32 \<Rightarrow> u32 \<Rightarrow> string \<Rightarrow> string \<Rightarrow> u32 \<Rightarrow> inode_pid_map \<Rightarrow> inode_pid_map option" where
  "scan_fd_dir fs fd_path pid tid process_name thread_name uid m =
     (case fs_read_dir fs fd_path of
        None \<Rightarrow> Some m
      | Some fd_entries \<Rightarrow>
          scan_fd_entries fs fd_path (pid, tid, process_name, thread_name, uid) fd_entries m)"

fun scan_task_entries ::
  "procfs \<Rightarrow> string \<Rightarrow> u32 \<Rightarrow> string \<Rightarrow> u32 \<Rightarrow> string option list \<Rightarrow> inode_pid_map \<Rightarrow> inode_pid_map option" where
  "scan_task_entries fs task_path pid process_name uid [] m = Some m"
| "scan_task_entries fs task_path pid process_name uid (None # es) m =
     scan_task_entries fs task_path pid process_name uid es m"
| "scan_task_entries fs task_path pid process_name uid (Some name # es) m =
     (case parse_dec name :: u32 option of
        None \<Rightarrow> scan_task_entries fs task_path pid process_name uid es m
      | Some tid \<Rightarrow> do {
          let thread_name = (case read_comm fs pid (Some tid) of Some n \<Rightarrow> n | None \<Rightarrow> process_name);
          m \<leftarrow> scan_fd_dir fs (path_join (path_join task_path name) ''fd'') pid tid process_name
                 thread_name uid m;
          scan_task_entries fs task_path pid process_name uid es m
        })"

text \<open>One process directory; \<open>continue\<close> leaves the map as it is.\<close>

definition scan_process :: "procfs \<Rightarrow> string \<Rightarrow> inode_pid_map \<Rightarrow> inode_pid_map option" where
  "scan_process fs name m =
     (case parse_dec name :: u32 option of
        None \<Rightarrow> Some m
      | Some pid \<Rightarrow>
          (case read_comm fs pid None of
             None \<Rightarrow> Some m
           | Some process_name \<Rightarrow>
               (case read_process_effective_uid fs pid of
                  None \<Rightarrow> Some m
                | Some process_uid \<Rightarrow>
                    (let path = path_join ''/proc'' name; task_path = path_join path ''task'' in
                     case fs_read_dir fs task_path of
                       None \<Rightarrow> scan_fd_dir fs (path_join path ''fd'') pid pid process_name
                                 process_name process_uid m
                     | Some task_entries \<Rightarrow>
                         scan_task_entries fs task_path pid process_name process_uid task_entries m))))"

fun scan_proc_entries :: "procfs \<Rightarrow> string option list \<Rightarrow> inode_pid_map \<Rightarrow> inode_pid_map option" where
  "scan_proc_entries fs [] m = Some m"
| "scan_proc_entries fs (None # es) m = scan_proc_entries fs es m"
| "scan_proc_entries fs (Some name # es) m = do {
     m \<leftarrow> scan_process fs name m;
     scan_proc_entries fs es m
   }"

definition build_inode_pid_map :: "procfs \<Rightarrow> inode_pid_map option" where
  "build_inode_pid_map fs =
     (case fs_read_dir fs ''/proc'' of
        None \<Rightarrow> Some []
      | Some proc_entries \<Rightarrow> scan_proc_entries fs proc_entries [])"

section \<open>Links to sockets\<close>

definition socket_link :: "u64 \<Rightarrow> string" where
  "socket_link inode = socket_prefix @ show_word inode @ '']''"

lemma socket_bracketed:
  "starts_with socket_prefix t \<and> ends_with '']'' t \<longleftrightarrow> (\<exists>u. t = socket_prefix @ u @ '']'')"
  by (rule bracketed_iff) (simp_all add: socket_prefix_def)

lemma parse_socket_inode_text:
  "parse_socket_inode (socket_prefix @ u @ '']'') = Some (parse_dec u)"
  using socket_bracketed [of "socket_prefix @ u @ '']''"]
  by (auto simp: parse_socket_inode_def Let_def slice_def)

lemma parse_socket_inode_other:
  "\<nexists>u. t = socket_prefix @ u @ '']'' \<Longrightarrow> parse_socket_inode t = Some None"
  using socket_bracketed [of t] by (auto simp: parse_socket_inode_def Let_def)

lemma parse_socket_inode_returns: "\<exists>r. parse_socket_inode t = Some r"
  using parse_socket_inode_text parse_socket_inode_other by (cases "\<exists>u. t = socket_prefix @ u @ '']''") auto

lemma parse_socket_link [simp]: "parse_socket_inode (socket_link i) = Some (Some i)"
  unfolding socket_link_def parse_socket_inode_text by (simp add: parse_dec_show_word)

section \<open>The descriptors in scan order\<close>

definition listing :: "procfs \<Rightarrow> string \<Rightarrow> string list" where
  "listing fs dir = (case fs_read_dir fs dir of None \<Rightarrow> [] | Some es \<Rightarrow> List.map_filter (\<lambda>e. e) es)"

definition link_inode :: "procfs \<Rightarrow> string \<Rightarrow> u64 option" where
  "link_inode fs path =
     (case fs_read_link fs path of
        None \<Rightarrow> None
      | Some t \<Rightarrow> (case parse_socket_inode t of Some r \<Rightarrow> r | None \<Rightarrow> None))"

definition fd_inodes :: "procfs \<Rightarrow> string \<Rightarrow> u64 list" where
  "fd_inodes fs dir = List.map_filter (\<lambda>name. link_inode fs (path_join dir name)) (listing fs dir)"

definition thread_name_of :: "procfs \<Rightarrow> u32 \<Rightarrow> u32 \<Rightarrow> string \<Rightarrow> string" where
  "thread_name_of fs pid tid process_name =
     (case read_comm fs pid (Some tid) of Some n \<Rightarrow> n | None \<Rightarrow> process_name)"

definition task_owned ::
  "procfs \<Rightarrow> string \<Rightarrow> u32 \<Rightarrow> string \<Rightarrow> u32 \<Rightarrow> string \<Rightarrow> (u64 \<times> inode_pid_entry) list" where
  "task_owned fs task_path pid pname uid name =
     (case parse_dec name of
        None \<Rightarrow> []
      | Some tid \<Rightarrow>
          map (\<lambda>i. (i, (pid, tid, pname, thread_name_of fs pid tid pname, uid)))
            (fd_inodes fs (path_join (path_join task_path name) ''fd'')))"

definition process_owned :: "procfs \<Rightarrow> string \<Rightarrow> (u64 \<times> inode_pid_entry) list" where
  "process_owned fs name =
     (case parse_dec name of
        None \<Rightarrow> []
      | Some pid \<Rightarrow>
          (case (read_comm fs pid None, read_process_effective_uid fs pid) of
             (Some pname, Some uid) \<Rightarrow>
               (let path = path_join ''/proc'' name; task_path = path_join path ''task'' in
                if fs_read_dir fs task_path = None
                then map (\<lambda>i. (i, (pid, pid, pname, pname, uid))) (fd_inodes fs (path_join path ''fd''))
                else concat (map (task_owned fs task_path pid pname uid) (listing fs task_path)))
           | _ \<Rightarrow> []))"

definition owned :: "procfs \<Rightarrow> (u64 \<times> inode_pid_entry) list" where
  "owned fs = concat (map (process_owned fs) (listing fs ''/proc''))"

definition insert_owned :: "(u64 \<times> inode_pid_entry) list \<Rightarrow> inode_pid_map \<Rightarrow> inode_pid_map" where
  "insert_owned os m = fold (\<lambda>x. hm_insert (fst x) (snd x)) os m"

lemma insert_owned_append [simp]: "insert_owned (xs @ ys) m = insert_owned ys (insert_owned xs m)"
  by (simp add: insert_owned_def)

lemma insert_owned_Nil [simp]: "insert_owned [] m = m"
  by (simp add: insert_owned_def)

lemma scan_fd_entries_owned:
  "scan_fd_entries fs dir owner es m = Some (insert_owned (map (\<lambda>i. (i, owner))
     (List.map_filter (\<lambda>name. link_inode fs (path_join dir name)) (List.map_filter (\<lambda>e. e) es))) m)"
proof (induction es arbitrary: m)
  case (Cons e es)
  show ?case
  proof (cases e)
    case None
    with Cons show ?thesis by (simp add: map_filter_simps)
  next
    case (Some name)
    show ?thesis
    proof (cases "fs_read_link fs (path_join dir name)")
      case None
      with Some Cons show ?thesis by (simp add: map_filter_simps link_inode_def)
    next
      fix t assume t: "fs_read_link fs (path_join dir name) = Some t"
      obtain r where "parse_socket_inode t = Some r" using parse_socket_inode_returns by blast
      with Some t Cons show ?thesis
        by (cases r) (simp_all add: map_filter_simps link_inode_def insert_owned_def)
    qed
  qed
qed (simp add: map_filter_simps)

lemma scan_fd_dir_owned:
  "scan_fd_dir fs dir pid tid pname tname uid m =
     Some (insert_owned (map (\<lambda>i. (i, (pid, tid, pname, tname, uid))) (fd_inodes fs dir)) m)"
  by (simp add: scan_fd_dir_def scan_fd_entries_owned fd_inodes_def listing_def map_filter_simps
      split: option.split)

lemma scan_task_entries_owned:
  "scan_task_entries fs task_path pid pname uid es m =
     Some (insert_owned (concat (map (task_owned fs task_path pid pname uid) (List.map_filter (\<lambda>e. e) es))) m)"
proof (induction es arbitrary: m)
  case (Cons e es)
  then show ?case
    by (cases e) (simp_all add: map_filter_simps task_owned_def scan_fd_dir_owned Let_def
        thread_name_of_def split: option.split)
qed (simp add: map_filter_simps)

lemma scan_process_owned: "scan_process fs name m = Some (insert_owned (process_owned fs name) m)"
  by (simp add: scan_process_def process_owned_def scan_fd_dir_owned scan_task_entries_owned
      Let_def listing_def split: option.split)

lemma scan_proc_entries_owned:
  "scan_proc_entries fs es m =
     Some (insert_owned (concat (map (process_owned fs) (List.map_filter (\<lambda>e. e) es))) m)"
proof (induction es arbitrary: m)
  case (Cons e es)
  then show ?case by (cases e) (simp_all add: map_filter_simps scan_process_owned)
qed (simp add: map_filter_simps)

lemma build_inode_pid_map_owned: "build_inode_pid_map fs = Some (insert_owned (owned fs) [])"
  by (simp add: build_inode_pid_map_def owned_def listing_def scan_proc_entries_owned
      split: option.split)

lemma insert_owned_invar: "hm_invar (insert_owned os [])"
  unfolding insert_owned_def by (intro hm.invar_put_all) simp

lemma insert_owned_get:
  "hm_get (insert_owned os []) i = map_option snd (find (\<lambda>x. fst x = i) (rev os))"
  unfolding insert_owned_def
  using hm.get_put_all [of "[]" fst snd os i] by (simp split: option.split)

section \<open>Properties\<close>

lemma find_in_set: "find P xs = Some x \<Longrightarrow> P x \<and> x \<in> set xs"
  by (auto simp: find_Some_iff in_set_conv_nth)

lemma find_mapped: "i \<in> set is \<Longrightarrow> find (\<lambda>x. fst x = i) (rev (map (\<lambda>i. (i, v)) is)) = Some (i, v)"
  by (induction "is" rule: rev_induct) auto

lemma find_append: "find P (xs @ ys) = (case find P xs of Some x \<Rightarrow> Some x | None \<Rightarrow> find P ys)"
  by (induction xs) auto

lemma insert_owned_get_from:
  "hm_invar m \<Longrightarrow> hm_get (insert_owned os m) i =
     (case find (\<lambda>x. fst x = i) (rev os) of Some x \<Rightarrow> Some (snd x) | None \<Rightarrow> hm_get m i)"
  unfolding insert_owned_def by (rule hm.get_put_all)


text \<open>C20. The scan of /proc returns without a panic, and its map holds, for each inode, the
  owner of the last descriptor in scan order that links to a socket with that inode;
  processes without a name or a uid, unreadable directories, entries and links are
  skipped, and inodes with no such descriptor are absent.\<close>

theorem inode_owner_is_last_scanned:
  "\<exists>m. build_inode_pid_map fs = Some m \<and> hm_invar m \<and>
     (\<forall>inode. hm_get m inode = map_option snd (find (\<lambda>x. fst x = inode) (rev (owned fs))))"
  using build_inode_pid_map_owned insert_owned_invar insert_owned_get by blast

lemma owned_link:
  assumes "(i, (pid, tid, pname, tname, uid)) \<in> set (owned fs)"
  shows "read_comm fs pid None = Some pname \<and> read_process_effective_uid fs pid = Some uid
     \<and> (\<exists>fd t u. fs_read_link fs fd = Some t \<and> t = socket_prefix @ u @ '']'' \<and> parse_dec u = Some i)"
proof -
  obtain name where "(i, (pid, tid, pname, tname, uid)) \<in> set (process_owned fs name)"
    using assms by (auto simp: owned_def)
  moreover have link: "\<exists>fd t u. fs_read_link fs fd = Some t \<and> t = socket_prefix @ u @ '']'' \<and> parse_dec u = Some i"
    if "i \<in> set (fd_inodes fs dir)" for dir
  proof -
    from that obtain fd where "link_inode fs fd = Some i"
      by (auto simp: fd_inodes_def map_filter_def)
    then obtain t where "fs_read_link fs fd = Some t" "parse_socket_inode t = Some (Some i)"
      by (auto simp: link_inode_def split: option.splits)
    then show ?thesis
      using parse_socket_inode_text parse_socket_inode_other by (metis option.inject option.distinct(1))
  qed
  ultimately show ?thesis
    by (auto simp: process_owned_def task_owned_def Let_def split: option.splits if_splits)
qed

text \<open>Every owner the scan reports is real: it carries the name and the effective uid of
  a process of that PID, and some descriptor links to the socket with that inode.\<close>

theorem inode_owner_sound:
  assumes "build_inode_pid_map fs = Some m" and "hm_get m inode = Some (pid, tid, pname, tname, uid)"
  shows "read_comm fs pid None = Some pname \<and> read_process_effective_uid fs pid = Some uid
     \<and> (\<exists>fd t u. fs_read_link fs fd = Some t \<and> t = socket_prefix @ u @ '']'' \<and> parse_dec u = Some inode)"
proof -
  have "map_option snd (find (\<lambda>x. fst x = inode) (rev (owned fs))) = Some (pid, tid, pname, tname, uid)"
    using assms unfolding build_inode_pid_map_owned insert_owned_get [symmetric] by simp
  then obtain x where x: "find (\<lambda>x. fst x = inode) (rev (owned fs)) = Some x"
    and o: "snd x = (pid, tid, pname, tname, uid)"
    unfolding map_option_eq_Some by blast
  from find_in_set [OF x] o have "(inode, (pid, tid, pname, tname, uid)) \<in> set (owned fs)"
    by (cases x) auto
  then show ?thesis by (rule owned_link)
qed

text \<open>Threads that share one descriptor table, as the threads of a process do, are not told
  apart: a socket the last listed thread holds is put down to that thread, whichever thread
  opened or uses it.\<close>

theorem shared_descriptors_last_thread:
  assumes "parse_dec name = Some pid" and "read_comm fs pid None = Some pname"
    and "read_process_effective_uid fs pid = Some uid"
    and "fs_read_dir fs (''/proc/'' @ name @ ''/task'') = Some (tasks @ [Some last_name])"
    and "parse_dec last_name = Some last_tid"
    and "inode \<in> set (fd_inodes fs (''/proc/'' @ name @ ''/task/'' @ last_name @ ''/fd''))"
    and "hm_invar m"
  shows "\<exists>m'. scan_process fs name m = Some m' \<and>
     hm_get m' inode = Some (pid, last_tid, pname, thread_name_of fs pid last_tid pname, uid)"
proof -
  let ?task = "path_join (path_join ''/proc'' name) ''task''"
  let ?fd = "path_join (path_join ?task last_name) ''fd''"
  let ?owner = "(pid, last_tid, pname, thread_name_of fs pid last_tid pname, uid)"
  have dir: "fs_read_dir fs ?task = Some (tasks @ [Some last_name])"
    using assms(4) by (simp add: path_join_def)
  have fd: "inode \<in> set (fd_inodes fs ?fd)"
    using assms(6) by (simp add: path_join_def)
  have "\<exists>before. process_owned fs name = before @ map (\<lambda>i. (i, ?owner)) (fd_inodes fs ?fd)"
    using assms(1-3,5) dir
    by (simp add: process_owned_def Let_def task_owned_def listing_def map_filter_simps
        List.map_filter_def)
  then have "find (\<lambda>x. fst x = inode) (rev (process_owned fs name)) = Some (inode, ?owner)"
    using find_mapped [OF fd, of ?owner] by (auto simp: find_append)
  then show ?thesis
    by (simp add: scan_process_owned insert_owned_get_from [OF assms(7)])
qed

text \<open>A process 42 with threads 42 and 43 and one socket.\<close>

definition two_threads :: procfs where
  "two_threads = \<lparr>fs_read_dir = (\<lambda>p. if p = ''/proc'' then Some [Some ''42'']
       else if p = ''/proc/42/task'' then Some [Some ''42'', Some ''43'']
       else if p = ''/proc/42/task/42/fd'' \<or> p = ''/proc/42/task/43/fd'' then Some [Some ''3''] else None),
     fs_read_file = (\<lambda>p. if p = ''/proc/42/comm'' then Some ''srv''
       else if p = ''/proc/42/status'' then Some ''Uid: 1000 1000 1000 1000'' else None),
     fs_read_link = (\<lambda>p. if p = ''/proc/42/task/43/fd/3'' then Some (socket_link 7) else None)\<rparr>"

lemma parse_42: "parse_dec ''42'' = Some (42 :: u32)" "parse_dec ''43'' = Some (43 :: u32)"
  by (simp_all add: parse_dec_def from_str_radix_def to_digit_def)

lemma show_42: "show_word (42 :: u32) = ''42''"
proof -
  have "show_nat 42 = ''42''" by code_simp
  then show ?thesis by (simp add: show_word_def)
qed

lemma two_threads_status: "str_lines ''Uid: 1000 1000 1000 1000'' = [''Uid: 1000 1000 1000 1000'']"
    "split_whitespace '' 1000 1000 1000 1000'' = [''1000'', ''1000'', ''1000'', ''1000'']"
    "trim ''srv'' = ''srv''"
  by code_simp+

lemma two_threads_facts:
  "read_comm two_threads 42 None = Some ''srv''"
  "read_process_effective_uid two_threads 42 = Some 1000"
  "fs_read_dir two_threads ''/proc/42/task'' = Some [Some ''42'', Some ''43'']"
  "fd_inodes two_threads ''/proc/42/task/43/fd'' = [7]"
proof -
  show "read_comm two_threads 42 None = Some ''srv''"
    by (simp add: read_comm_def two_threads_def show_42 two_threads_status)
  have "parse_dec ''1000'' = Some (1000 :: u32)"
    by (simp add: parse_dec_def from_str_radix_def to_digit_def)
  then show "read_process_effective_uid two_threads 42 = Some 1000"
    by (simp add: read_process_effective_uid_def two_threads_def show_42 two_threads_status
        strip_prefix_def starts_with_def)
  show "fs_read_dir two_threads ''/proc/42/task'' = Some [Some ''42'', Some ''43'']"
    by (simp add: two_threads_def)
  show "fd_inodes two_threads ''/proc/42/task/43/fd'' = [7]"
    by (simp add: fd_inodes_def listing_def two_threads_def map_filter_simps link_inode_def path_join_def)
qed

theorem shared_descriptors_last_thread_witness:
  "\<exists>m'. scan_process two_threads ''42'' [] = Some m' \<and>
     hm_get m' 7 = Some (42, 43, ''srv'', thread_name_of two_threads 42 43 ''srv'', 1000)"
  by (rule shared_descriptors_last_thread [where tasks = "[Some ''42'']" and last_name = "''43''"])
     (simp_all add: parse_42 two_threads_facts)

theorem inode_owner_sound_witness:
  "read_comm two_threads 42 None = Some ''srv'' \<and> read_process_effective_uid two_threads 42 = Some 1000
     \<and> (\<exists>fd t u. fs_read_link two_threads fd = Some t \<and> t = socket_prefix @ u @ '']'' \<and> parse_dec u = Some (7 :: u64))"
proof -
  have one: "listing two_threads ''/proc'' = [''42'']" "listing two_threads ''/proc/42/task'' = [''42'', ''43'']"
    by (simp_all add: listing_def two_threads_def map_filter_simps)
  have "owned two_threads = map (\<lambda>i. (i, (42, 42, ''srv'', thread_name_of two_threads 42 42 ''srv'', 1000)))
        (fd_inodes two_threads ''/proc/42/task/42/fd'')
      @ [(7, (42, 43, ''srv'', thread_name_of two_threads 42 43 ''srv'', 1000))]"
    by (simp add: owned_def one process_owned_def parse_42 two_threads_facts path_join_def Let_def task_owned_def)
  then have "hm_get (insert_owned (owned two_threads) []) 7
      = Some (42, 43, ''srv'', thread_name_of two_threads 42 43 ''srv'', 1000)"
    by (simp add: insert_owned_get del: insert_owned_append)
  from inode_owner_sound [OF build_inode_pid_map_owned this] show ?thesis .
qed

end
