(* ===== verification/Resolver.thy ===== *)
theory Resolver
  imports Proc_Fallback Pid_Map
begin

text \<open>
  The cache of crates/resolver/src/lib.rs: it joins the sockets of the kernel with the scan
  of /proc and answers which process a flow belongs to. The world it queries is a record:
  the netlink socket, the text of files, /proc, the reading of /etc/passwd, and how long a
  scan takes. The clock is an argument of every operation that reads it. \<open>None\<close> in a result means that the netlink
  dump does not return.

  A \<open>Vec\<close> or iteration in \<open>HashMap\<close> order is a list in the order of the socket map.
\<close>

section \<open>State\<close>

record process_info =
  pi_pid :: u32
  pi_tid :: u32
  pi_name :: string
  pi_thread_name :: string
  pi_uid :: u32
  pi_username :: string

record resolved_connection =
  rc_local_addr :: socket_addr
  rc_remote_addr :: socket_addr
  rc_protocol :: protocol
  rc_state :: string
  rc_inode :: u64
  rc_pid :: u32
  rc_tid :: u32
  rc_process :: string
  rc_thread_name :: string
  rc_uid :: u32
  rc_username :: string

datatype resolver_error = Io string | Fallback fallback_error

type_synonym uid_table = "(u32, string) hashmap"

record resolver_cache =
  uid_map :: uid_table
  inode_to_process :: "(u64, process_info) hashmap"
  socket_entries :: socket_map
  connections :: "resolved_connection list"
  last_refresh :: instant

record resolver_world =
  w_netlink :: netlink_env
  w_read_to_string :: "string \<Rightarrow> string + string"
  w_procfs :: procfs
  w_passwd :: "string + string option list"
  w_scan_time :: duration

definition RESOLVER_REFRESH_PERIOD :: duration where "RESOLVER_REFRESH_PERIOD = from_secs 1"
definition UNKNOWN_LABEL :: string where "UNKNOWN_LABEL = ''[unknown]''"

section \<open>User names\<close>

text \<open>A line of /etc/passwd that cannot be read (\<open>None\<close>) is skipped.\<close>

definition uid_line :: "string option \<Rightarrow> uid_table \<Rightarrow> uid_table" where
  "uid_line line_result m =
     (case line_result of
        None \<Rightarrow> m
      | Some line \<Rightarrow>
          (let parts = split_by (\<lambda>c. c = CHR '':'') line in
           if length parts < 3 then m
           else case parse_dec (parts ! 2) :: u32 option of
             Some uid \<Rightarrow> hm_insert uid (parts ! 0) m
           | None \<Rightarrow> m))"

definition load_uid_map :: "string + string option list \<Rightarrow> string + uid_table" where
  "load_uid_map passwd =
     (case passwd of Inl e \<Rightarrow> Inl e | Inr lines \<Rightarrow> Inr (fold uid_line lines []))"

definition username_of :: "uid_table \<Rightarrow> u32 \<Rightarrow> string" where
  "username_of uids uid = (case hm_get uids uid of Some n \<Rightarrow> n | None \<Rightarrow> UNKNOWN_LABEL)"

section \<open>The join\<close>

definition process_info_of :: "inode_pid_map \<Rightarrow> uid_table \<Rightarrow> u64 \<Rightarrow> process_info" where
  "process_info_of inode_pid_map uids inode =
     (case hm_get inode_pid_map inode of
        Some (pid, tid, process_name, thread_name, uid) \<Rightarrow>
          \<lparr>pi_pid = pid, pi_tid = tid, pi_name = process_name, pi_thread_name = thread_name,
           pi_uid = uid, pi_username = username_of uids uid\<rparr>
      | None \<Rightarrow>
          \<lparr>pi_pid = 0, pi_tid = 0, pi_name = UNKNOWN_LABEL, pi_thread_name = UNKNOWN_LABEL,
           pi_uid = 0, pi_username = UNKNOWN_LABEL\<rparr>)"

definition build_inode_process_map ::
  "socket_map \<Rightarrow> inode_pid_map \<Rightarrow> uid_table \<Rightarrow> (u64, process_info) hashmap" where
  "build_inode_process_map sockets inode_pid_map uids =
     fold (\<lambda>inode. hm_insert inode (process_info_of inode_pid_map uids inode)) (hm_keys sockets) []"

definition connection_of :: "inode_pid_map \<Rightarrow> uid_table \<Rightarrow> socket_entry \<Rightarrow> resolved_connection" where
  "connection_of inode_pid_map uids e =
     (let (pid, tid, process, thread_name, uid) =
        (case hm_get inode_pid_map (se_inode e) of
           Some owner \<Rightarrow> owner
         | None \<Rightarrow> (0, 0, UNKNOWN_LABEL, UNKNOWN_LABEL, se_uid e))
      in \<lparr>rc_local_addr = se_local_addr e, rc_remote_addr = se_remote_addr e,
          rc_protocol = se_protocol e, rc_state = se_state e, rc_inode = se_inode e,
          rc_pid = pid, rc_tid = tid, rc_process = process, rc_thread_name = thread_name,
          rc_uid = uid, rc_username = username_of uids uid\<rparr>)"

definition build_connections ::
  "socket_map \<Rightarrow> inode_pid_map \<Rightarrow> uid_table \<Rightarrow> resolved_connection list" where
  "build_connections sockets inode_pid_map uids =
     map (connection_of inode_pid_map uids) (hm_values sockets)"

section \<open>Operations\<close>

definition resolver_new :: "instant \<Rightarrow> resolver_world \<Rightarrow> resolver_error + resolver_cache" where
  "resolver_new now w =
     (case load_uid_map (w_passwd w) of
        Inl e \<Rightarrow> Inl (Io e)
      | Inr uids \<Rightarrow> Inr \<lparr>uid_map = uids, inode_to_process = [], socket_entries = [],
          connections = [], last_refresh = now - int (from_secs 5)\<rparr>)"

definition refresh ::
  "instant \<Rightarrow> resolver_world \<Rightarrow> resolver_cache \<Rightarrow> ((resolver_error + unit) \<times> resolver_cache) option" where
  "refresh now w c = do {
     nl \<leftarrow> query_sockets (w_netlink w);
     sockets \<leftarrow> (case nl of
         Inr inodes \<Rightarrow> Some (Inr inodes)
       | Inl e \<Rightarrow> read_proc_net (w_read_to_string w));
     (case sockets of
        Inl fallback_error \<Rightarrow> Some (Inl (Fallback fallback_error), c)
      | Inr socket_inodes \<Rightarrow> do {
          inode_pid_map \<leftarrow> build_inode_pid_map (w_procfs w);
          Some (Inr (), c\<lparr>
            socket_entries := socket_inodes,
            inode_to_process := build_inode_process_map socket_inodes inode_pid_map (uid_map c),
            connections := build_connections socket_inodes inode_pid_map (uid_map c),
            last_refresh := now + int (w_scan_time w)\<rparr>)
        })
   }"

definition lookup :: "resolver_cache \<Rightarrow> u64 \<Rightarrow> process_info option" where
  "lookup c inode = hm_get (inode_to_process c) inode"

definition refresh_if_needed ::
  "instant \<Rightarrow> resolver_world \<Rightarrow> resolver_cache \<Rightarrow> ((resolver_error + unit) \<times> resolver_cache) option" where
  "refresh_if_needed now w c =
     (if elapsed now (last_refresh c) < RESOLVER_REFRESH_PERIOD then Some (Inr (), c)
      else refresh now w c)"

definition flow_matches :: "flow_key \<Rightarrow> socket_entry \<Rightarrow> bool" where
  "flow_matches flow e =
     (if se_protocol e \<noteq> fk_protocol flow then False
      else let forward_match = fst (se_local_addr e) = src_ip flow
                 \<and> snd (se_local_addr e) = src_port flow
                 \<and> fst (se_remote_addr e) = dst_ip flow
                 \<and> snd (se_remote_addr e) = dst_port flow;
               reverse_match = fst (se_local_addr e) = dst_ip flow
                 \<and> snd (se_local_addr e) = dst_port flow
                 \<and> fst (se_remote_addr e) = src_ip flow
                 \<and> snd (se_remote_addr e) = src_port flow
        in forward_match \<or> reverse_match)"

fun first_owner :: "resolver_cache \<Rightarrow> flow_key \<Rightarrow> socket_entry list \<Rightarrow> process_info option" where
  "first_owner c flow [] = None"
| "first_owner c flow (e # es) =
     (if \<not> flow_matches flow e then first_owner c flow es
      else case lookup c (se_inode e) of
        Some info \<Rightarrow> Some info
      | None \<Rightarrow> first_owner c flow es)"

definition resolve_flow_owner ::
  "instant \<Rightarrow> resolver_world \<Rightarrow> flow_key \<Rightarrow> resolver_cache \<Rightarrow> (process_info option \<times> resolver_cache) option" where
  "resolve_flow_owner now w flow c = do {
     (_, c) \<leftarrow> refresh_if_needed now w c;
     Some (first_owner c flow (hm_values (socket_entries c)), c)
   }"

definition list_connections ::
  "instant \<Rightarrow> resolver_world \<Rightarrow> resolver_cache \<Rightarrow> (resolved_connection list \<times> resolver_cache) option" where
  "list_connections now w c = do {
     (_, c) \<leftarrow> refresh_if_needed now w c;
     Some (connections c, c)
   }"

definition process_by_pid ::
  "instant \<Rightarrow> resolver_world \<Rightarrow> u32 \<Rightarrow> resolver_cache \<Rightarrow> (process_info option \<times> resolver_cache) option" where
  "process_by_pid now w pid c = do {
     (_, c) \<leftarrow> refresh_if_needed now w c;
     Some (find (\<lambda>info. pi_pid info = pid) (hm_values (inode_to_process c)), c)
   }"

text \<open>The two free functions. Their resolver lives for one call; \<open>nows\<close> are the readings of
  the clock by \<open>new\<close>, by \<open>refresh_if_needed\<close> and by the query itself.\<close>

definition resolve ::
  "instant \<times> instant \<times> instant \<Rightarrow> resolver_world \<Rightarrow> flow_key \<Rightarrow> process_info option option" where
  "resolve nows w flow =
     (case nows of (t0, t1, t2) \<Rightarrow>
       (case resolver_new t0 w of
          Inl e \<Rightarrow> Some None
        | Inr c \<Rightarrow> do {
            (_, c) \<leftarrow> refresh_if_needed t1 w c;
            (owner, c) \<leftarrow> resolve_flow_owner t2 w flow c;
            Some owner
          }))"

definition scan_connections_for_pid ::
  "instant \<times> instant \<times> instant \<Rightarrow> resolver_world \<Rightarrow> u32 \<Rightarrow> resolved_connection list option" where
  "scan_connections_for_pid nows w pid =
     (case nows of (t0, t1, t2) \<Rightarrow>
       (case resolver_new t0 w of
          Inl e \<Rightarrow> Some []
        | Inr c \<Rightarrow> do {
            (_, c) \<leftarrow> refresh_if_needed t1 w c;
            (conns, c) \<leftarrow> list_connections t2 w c;
            Some (filter (\<lambda>connection. rc_pid connection = pid) conns)
          }))"

section \<open>User names\<close>

lemma uid_line_invar: "hm_invar m \<Longrightarrow> hm_invar (uid_line l m)"
  by (auto simp: uid_line_def Let_def split: option.splits)

definition passwd_line :: "string \<times> string \<times> u32 \<times> string \<Rightarrow> string" where
  "passwd_line acct = (case acct of (name, pw, uid, rest) \<Rightarrow>
     name @ '':'' @ pw @ '':'' @ show_word uid @ '':'' @ rest)"

definition account_ok :: "string \<times> string \<times> u32 \<times> string \<Rightarrow> bool" where
  "account_ok acct = (case acct of (name, pw, uid, rest) \<Rightarrow> CHR '':'' \<notin> set name \<and> CHR '':'' \<notin> set pw)"

lemma uid_line_account:
  assumes "account_ok (name, pw, uid, rest)"
  shows "uid_line (Some (passwd_line (name, pw, uid, rest))) m = hm_insert uid name m"
proof -
  have digits: "CHR '':'' \<notin> set (show_word uid)"
    unfolding show_word_def using alnum_show_nat alnum_not(2) by blast
  have "split_by (\<lambda>c. c = CHR '':'') (passwd_line (name, pw, uid, rest))
      = name # pw # show_word uid # split_by (\<lambda>c. c = CHR '':'') rest"
    using assms digits
    by (simp add: passwd_line_def account_ok_def) (subst split_by_append_sep; auto)+
  then show ?thesis by (simp add: uid_line_def parse_dec_show_word)
qed

text \<open>Loading /etc/passwd maps every uid to the name of the last account line that has it
  (so a second account with uid 0 hides root), and a uid with no account gets the label
  for unknown users.\<close>

theorem load_uid_map_last_account:
  assumes "\<forall>acct \<in> set accts. account_ok acct"
  shows "\<exists>uids. load_uid_map (Inr (map (\<lambda>acct. Some (passwd_line acct)) accts)) = Inr uids
     \<and> hm_invar uids
     \<and> (\<forall>uid. username_of uids uid =
          (case find (\<lambda>(name, pw, u, rest). u = uid) (rev accts) of
             Some (name, pw, u, rest) \<Rightarrow> name | None \<Rightarrow> UNKNOWN_LABEL))"
proof -
  have "fold uid_line (map (\<lambda>acct. Some (passwd_line acct)) as) m
      = fold (\<lambda>acct. hm_insert (fst (snd (snd acct))) (fst acct)) as m"
    if "\<forall>acct \<in> set as. account_ok acct" for as m
    using that
  proof (induction as arbitrary: m)
    case (Cons a as)
    then show ?case by (cases a) (simp add: uid_line_account)
  qed simp
  then have l: "load_uid_map (Inr (map (\<lambda>acct. Some (passwd_line acct)) accts))
      = Inr (fold (\<lambda>acct. hm_insert (fst (snd (snd acct))) (fst acct)) accts [])"
    using assms by (simp add: load_uid_map_def)
  have "find (\<lambda>x. fst (snd (snd x)) = uid) (rev accts)
      = find (\<lambda>(name, pw, u, rest). u = uid) (rev accts)" for uid
    by (rule find_cong) auto
  then have "hm_get (fold (\<lambda>acct. hm_insert (fst (snd (snd acct))) (fst acct)) accts []) uid
      = (case find (\<lambda>(name, pw, u, rest). u = uid) (rev accts) of
           Some x \<Rightarrow> Some (fst x) | None \<Rightarrow> None)" for uid
    using hm.get_put_all [of "[]" "\<lambda>acct. fst (snd (snd acct))" fst accts uid]
    by (simp split: option.splits)
  then show ?thesis
    unfolding l using hm.invar_put_all [of "[]" "\<lambda>acct. fst (snd (snd acct))" fst accts]
    by (auto simp: username_of_def split: option.splits)
qed

theorem load_uid_map_last_account_witness:
  "\<exists>uids. load_uid_map (Inr (map (\<lambda>acct. Some (passwd_line acct))
         [(''root'', ''x'', 0, ''0:root:/root:/bin/sh''), (''toor'', ''x'', 0, ''0::/:/bin/sh'')])) = Inr uids
     \<and> hm_invar uids
     \<and> (\<forall>uid. username_of uids uid =
          (case find (\<lambda>(name, pw, u, rest). u = uid)
              (rev [(''root'', ''x'', 0, ''0:root:/root:/bin/sh''), (''toor'', ''x'', 0, ''0::/:/bin/sh'')]) of
             Some (name, pw, u, rest) \<Rightarrow> name | None \<Rightarrow> UNKNOWN_LABEL))"
  by (rule load_uid_map_last_account) (simp add: account_ok_def)

section \<open>The invariant of the cache\<close>

text \<open>
  The sockets satisfy the contract of their source; there is process information for
  exactly the cached inodes; and the connection rows are the sockets, in order.
\<close>

definition cache_ok :: "resolver_cache \<Rightarrow> bool" where
  "cache_ok c \<longleftrightarrow> sockets_ok (socket_entries c) \<and> hm_invar (inode_to_process c)
     \<and> (\<forall>inode. hm_get (inode_to_process c) inode = None \<longleftrightarrow> hm_get (socket_entries c) inode = None)
     \<and> map rc_inode (connections c) = hm_keys (socket_entries c)"

lemma inode_process_map_get:
  assumes "hm_invar sockets"
  shows "hm_get (build_inode_process_map sockets ipm uids) inode =
     (if hm_get sockets inode = None then None else Some (process_info_of ipm uids inode))"
proof -
  have "hm_get (build_inode_process_map sockets ipm uids) inode =
      (case find (\<lambda>x. x = inode) (rev (hm_keys sockets)) of
         Some x \<Rightarrow> Some (process_info_of ipm uids x) | None \<Rightarrow> None)"
    unfolding build_inode_process_map_def
    using hm.get_put_all [of "[]" "\<lambda>i. i" "process_info_of ipm uids" "hm_keys sockets" inode]
    by (simp split: option.split)
  moreover have "hm_get sockets inode = None \<longleftrightarrow> inode \<notin> set (hm_keys sockets)"
    by (simp add: hm_get_def hm_keys_def map_of_eq_None_iff)
  ultimately show ?thesis
    by (auto split: option.splits simp: find_None_iff dest: find_in_set)
qed

lemma inode_process_map_invar: "hm_invar (build_inode_process_map sockets ipm uids)"
  unfolding build_inode_process_map_def
  using hm.invar_put_all [of "[]" "\<lambda>i. i" "process_info_of ipm uids" "hm_keys sockets"] by simp

lemma connections_inodes:
  assumes "sockets_ok m"
  shows "map rc_inode (build_connections m ipm uids) = hm_keys m"
proof -
  have "rc_inode (connection_of ipm uids (snd x)) = fst x" if "x \<in> set m" for x
    using assms that by (cases x) (auto simp: sockets_ok_def hm_get_Some_iff connection_of_def Let_def split: prod.split)
  then show ?thesis
    by (simp add: build_connections_def hm_values_def hm_keys_def)
qed

text \<open>What a refresh does, by what the two sources return.\<close>

definition refreshed :: "instant \<Rightarrow> resolver_world \<Rightarrow> socket_map \<Rightarrow> resolver_cache \<Rightarrow> resolver_cache" where
  "refreshed now w sockets c =
     (let ipm = insert_owned (owned (w_procfs w)) [] in
      c\<lparr>socket_entries := sockets,
        inode_to_process := build_inode_process_map sockets ipm (uid_map c),
        connections := build_connections sockets ipm (uid_map c),
        last_refresh := now + int (w_scan_time w)\<rparr>)"

lemma refresh_cases:
  "refresh now w c =
     (case query_sockets (w_netlink w) of
        None \<Rightarrow> None
      | Some (Inr m) \<Rightarrow> Some (Inr (), refreshed now w m c)
      | Some (Inl e) \<Rightarrow>
          (case read_proc_net (w_read_to_string w) of
             None \<Rightarrow> None
           | Some (Inr m) \<Rightarrow> Some (Inr (), refreshed now w m c)
           | Some (Inl f) \<Rightarrow> Some (Inl (Fallback f), c)))"
  by (simp add: refresh_def build_inode_pid_map_owned refreshed_def Let_def
      split: option.split sum.split)

lemma refreshed_ok: "sockets_ok m \<Longrightarrow> cache_ok (refreshed now w m c)"
  by (simp add: cache_ok_def refreshed_def Let_def inode_process_map_get inode_process_map_invar
      connections_inodes) (simp add: sockets_ok_def inode_process_map_get)

lemma refresh_ok: "cache_ok c \<Longrightarrow> refresh now w c = Some (r, c') \<Longrightarrow> cache_ok c'"
  by (auto simp: refresh_cases refreshed_ok netlink_source.source_ok proc_source.source_ok
      split: option.splits sum.splits)

lemma refresh_if_needed_ok: "cache_ok c \<Longrightarrow> refresh_if_needed now w c = Some (r, c') \<Longrightarrow> cache_ok c'"
  by (auto simp: refresh_if_needed_def refresh_ok split: if_splits)

lemma resolver_new_ok: "resolver_new now w = Inr c \<Longrightarrow> cache_ok c"
  by (auto simp: resolver_new_def cache_ok_def hm_keys_def split: sum.splits)

lemma resolve_flow_owner_cache:
  "resolve_flow_owner now w flow c = Some (owner, c') \<Longrightarrow> cache_ok c \<Longrightarrow> cache_ok c'"
  by (auto simp: resolve_flow_owner_def bind_eq_Some_conv dest: refresh_if_needed_ok)

lemma process_by_pid_cache:
  "process_by_pid now w pid c = Some (found, c') \<Longrightarrow> cache_ok c \<Longrightarrow> cache_ok c'"
  by (auto simp: process_by_pid_def bind_eq_Some_conv dest: refresh_if_needed_ok)

lemma list_connections_cache:
  "list_connections now w c = Some (conns, c') \<Longrightarrow> cache_ok c \<Longrightarrow> cache_ok c'"
  by (auto simp: list_connections_def bind_eq_Some_conv dest: refresh_if_needed_ok)

lemma refresh_idem:
  "refresh_if_needed now w c = Some (r, c') \<Longrightarrow> \<exists>r'. refresh_if_needed now w c' = Some (r', c')"
  by (auto simp: refresh_if_needed_def refresh_cases refreshed_def Let_def elapsed_def
      RESOLVER_REFRESH_PERIOD_def from_secs_def split: if_splits option.splits sum.splits)

section \<open>Who owns a flow\<close>

lemma cache_entry: "cache_ok c \<Longrightarrow> e \<in> set (hm_values (socket_entries c)) \<Longrightarrow>
   entry_ok e \<and> hm_get (socket_entries c) (se_inode e) = Some e"
  by (auto simp: cache_ok_def sockets_ok_def hm_values_def hm_get_Some_iff)

lemma lookup_cached: "cache_ok c \<Longrightarrow> e \<in> set (hm_values (socket_entries c)) \<Longrightarrow> \<exists>info. lookup c (se_inode e) = Some info"
  using cache_entry [of c e] by (auto simp: cache_ok_def lookup_def) (metis not_Some_eq)

lemma first_owner_found:
  "\<forall>e \<in> set es. lookup c (se_inode e) \<noteq> None \<Longrightarrow>
   first_owner c flow es = (case find (flow_matches flow) es of
      None \<Rightarrow> None | Some e \<Rightarrow> lookup c (se_inode e))"
  by (induction es) auto

definition swap_flow :: "flow_key \<Rightarrow> flow_key" where
  "swap_flow flow = flow\<lparr>src_ip := dst_ip flow, dst_ip := src_ip flow,
     src_port := dst_port flow, dst_port := src_port flow\<rparr>"

lemma flow_matches_swap: "flow_matches (swap_flow flow) = flow_matches flow"
  by (rule ext) (auto simp: flow_matches_def swap_flow_def Let_def)


text \<open>A cache with one TCP connection, and a world in which nothing can be read.\<close>

definition ssh_entry :: socket_entry where
  "ssh_entry = \<lparr>se_inode = 7, se_local_addr = (V4 10 0 2 15, 40000), se_remote_addr = (V4 1 1 1 1, 22),
     se_state = ''ESTABLISHED'', se_uid = 1000, se_protocol = Tcp\<rparr>"

definition ssh_info :: process_info where
  "ssh_info = \<lparr>pi_pid = 42, pi_tid = 42, pi_name = ''ssh'', pi_thread_name = ''ssh'', pi_uid = 1000,
     pi_username = ''ann''\<rparr>"

definition ssh_flow :: flow_key where
  "ssh_flow = \<lparr>src_ip = V4 1 1 1 1, dst_ip = V4 10 0 2 15, src_port = 22, dst_port = 40000,
     fk_protocol = Tcp\<rparr>"

definition ssh_cache :: resolver_cache where
  "ssh_cache = \<lparr>uid_map = [(1000, ''ann'')], inode_to_process = [(7, ssh_info)],
     socket_entries = [(7, ssh_entry)],
     connections = build_connections [(7, ssh_entry)] [(7, (42, 42, ''ssh'', ''ssh'', 1000))] [(1000, ''ann'')],
     last_refresh = 0\<rparr>"

definition dead_world :: resolver_world where
  "dead_world = \<lparr>w_netlink = \<lparr>nl_open = Some ''EPERM'', nl_send = \<lambda>_. None, nl_recv = []\<rparr>,
     w_read_to_string = (\<lambda>_. Inl ''ENOENT''), w_procfs = \<lparr>fs_read_dir = \<lambda>_. None,
       fs_read_file = \<lambda>_. None, fs_read_link = \<lambda>_. None\<rparr>,
     w_passwd = Inl ''ENOENT'', w_scan_time = 5\<rparr>"

lemma ssh_cache_ok: "cache_ok ssh_cache"
  by (auto simp: cache_ok_def ssh_cache_def sockets_ok_def entry_ok_def ssh_entry_def hm_invar_def
      hm_get_def hm_keys_def build_connections_def hm_values_def connection_of_def)

lemma ssh_owner: "resolve_flow_owner 0 w ssh_flow ssh_cache = Some (Some ssh_info, ssh_cache)"
  by (simp add: resolve_flow_owner_def refresh_if_needed_def RESOLVER_REFRESH_PERIOD_def
      from_secs_def ssh_cache_def hm_values_def flow_matches_def ssh_entry_def ssh_flow_def
      lookup_def hm_get_def)


text \<open>What the resolver cannot attribute: a flow between two real ports has no owner when
  every cached socket is unconnected (its remote port is zero, as for a UDP socket that
  uses sendto) or belongs to the other address family (as a dual-stack socket that carries
  IPv4 traffic under IPv4-mapped IPv6 addresses does).\<close>

theorem unattributed_flows:
  assumes "resolve_flow_owner now w flow c = Some (owner, c')"
    and "same_family (src_ip flow) (dst_ip flow)" and "src_port flow \<noteq> 0" and "dst_port flow \<noteq> 0"
    and "\<forall>e \<in> set (hm_values (socket_entries c')). snd (se_remote_addr e) = 0
           \<or> \<not> same_family (fst (se_local_addr e)) (src_ip flow)"
  shows "owner = None"
proof -
  have fam: "same_family a b \<Longrightarrow> same_family b a" for a b by (cases a; cases b) auto
  have refl: "same_family a a" for a by (cases a) auto
  have "\<not> flow_matches flow e" if "e \<in> set (hm_values (socket_entries c'))" for e
  proof
    assume "flow_matches flow e"
    then have "snd (se_remote_addr e) \<in> {src_port flow, dst_port flow}"
      and "fst (se_local_addr e) \<in> {src_ip flow, dst_ip flow}"
      by (auto simp: flow_matches_def Let_def split: if_splits)
    then show False using assms(2-5) that fam refl by auto
  qed
  then have "first_owner c' flow es = None" if "set es \<subseteq> set (hm_values (socket_entries c'))" for es
    using that by (induction es) auto
  with assms(1) show ?thesis
    by (auto simp: resolve_flow_owner_def bind_eq_Some_conv)
qed

definition dual_stack_cache :: resolver_cache where
  "dual_stack_cache = ssh_cache\<lparr>socket_entries := [(7, ssh_entry\<lparr>
     se_local_addr := (V6 [0, 0, 0, 0, 0, 0, 0, 0, 0, 0, 255, 255, 10, 0, 2, 15], 40000),
     se_remote_addr := (V6 [0, 0, 0, 0, 0, 0, 0, 0, 0, 0, 255, 255, 1, 1, 1, 1], 22)\<rparr>)]\<rparr>"

theorem unattributed_flows_witness:
  "resolve_flow_owner 0 dead_world ssh_flow dual_stack_cache = Some (None, dual_stack_cache)
   \<and> (None :: process_info option) = None"
proof -
  have r: "resolve_flow_owner 0 dead_world ssh_flow dual_stack_cache = Some (None, dual_stack_cache)"
    by (simp add: resolve_flow_owner_def refresh_if_needed_def RESOLVER_REFRESH_PERIOD_def
        from_secs_def dual_stack_cache_def ssh_cache_def hm_values_def flow_matches_def ssh_entry_def
        ssh_flow_def lookup_def hm_get_def)
  show ?thesis
    by (rule conjI, rule r, rule unattributed_flows [OF r])
       (simp_all add: ssh_flow_def dual_stack_cache_def hm_values_def ssh_entry_def)
qed

section \<open>Refreshing\<close>

text \<open>A refresh that is due takes its sockets from netlink when the dump succeeds and from
  /proc/net otherwise. When both fail it returns the error of the fallback and leaves the
  cache as it was, its age included, so that the next call tries again at once.\<close>

theorem refresh_prefers_netlink:
  "refresh_if_needed now w c =
     (if elapsed now (last_refresh c) < RESOLVER_REFRESH_PERIOD then Some (Inr (), c)
      else case query_sockets (w_netlink w) of
        None \<Rightarrow> None
      | Some (Inr m) \<Rightarrow> Some (Inr (), refreshed now w m c)
      | Some (Inl e) \<Rightarrow>
          (case read_proc_net (w_read_to_string w) of
             Some (Inr m) \<Rightarrow> Some (Inr (), refreshed now w m c)
           | Some (Inl f) \<Rightarrow> Some (Inl (Fallback f), c)))"
proof -
  obtain r where "read_proc_net (w_read_to_string w) = Some r"
    using read_proc_files_ok [of proc_net_files "[]"] by (fastforce simp: read_proc_net_def proc_net_files_def)
  then show ?thesis
    by (simp add: refresh_if_needed_def refresh_cases split: option.split sum.split)
qed

text \<open>The step whose firing is a refresh that succeeded.\<close>

definition refresh_step :: "resolver_world \<Rightarrow> instant \<Rightarrow> resolver_cache \<Rightarrow> bool \<times> resolver_cache" where
  "refresh_step w now c =
     (case refresh_if_needed now w c of
        Some (Inr _, c') \<Rightarrow> (RESOLVER_REFRESH_PERIOD \<le> elapsed now (last_refresh c), c')
      | Some (Inl _, c') \<Rightarrow> (False, c')
      | None \<Rightarrow> (False, c))"

interpretation refresh_gate: rate_gate refresh_step last_refresh RESOLVER_REFRESH_PERIOD
  by unfold_locales
    (auto simp: refresh_step_def refresh_if_needed_def refresh_cases refreshed_def Let_def
      RESOLVER_REFRESH_PERIOD_def from_secs_def split: option.splits sum.splits if_splits)

text \<open>However often the resolver is asked, two refreshes that succeed are at least a second
  apart.\<close>

theorem refreshes_rate_limited:
  "spaced 1000000000 (gate_fires refresh_step calls c)"
  using refresh_gate.fires_spaced [of calls c]
  by (simp add: RESOLVER_REFRESH_PERIOD_def from_secs_def)

section \<open>The connection rows\<close>



end
