(* ===== verification/Aggregator.thy ===== *)
theory Aggregator
  imports Resolver
begin

text \<open>
  The aggregator of crates/aggregator/src/lib.rs: the counters per thread, per connection
  and for the interface, the operations of one iteration of its loop, and the snapshots it
  publishes. Everything the loop owns or shares is one record; the clock, the world the
  resolver queries and the records received are inputs. Each operation reads the clock
  once. \<open>None\<close> in a result means that the resolver does not return.
\<close>

section \<open>Data\<close>

definition HISTORY_SLOTS :: nat where "HISTORY_SLOTS = 300"
definition RESOLVER_SCAN_INTERVAL :: duration where "RESOLVER_SCAN_INTERVAL = from_millis 800"
definition PROCESS_EVICTION_TIMEOUT :: duration where "PROCESS_EVICTION_TIMEOUT = from_secs 30"
definition UNKNOWN_PROCESS_LABEL :: string where "UNKNOWN_PROCESS_LABEL = ''[unknown]''"

type_synonym history = "u64 list"

definition zero_history :: history where
  "zero_history = replicate HISTORY_SLOTS 0"

datatype thread_key = ThreadKey (tk_pid: u32) (tk_tid: u32)

record connection_key =
  ck_pid :: u32
  ck_tid :: u32
  ck_local_addr :: socket_addr
  ck_remote_addr :: socket_addr
  ck_protocol :: protocol

record connection_stats =
  cs_tx_bytes :: u64
  cs_rx_bytes :: u64
  cs_last_seen :: instant

record history_csv_row =
  hr_timestamp :: u64
  hr_pid :: u32
  hr_tid :: u32
  hr_process :: string
  hr_thread :: string
  hr_user :: string
  hr_uid :: u32
  hr_tx_bytes_total :: u64
  hr_rx_bytes_total :: u64
  hr_tx_2s_avg :: u64
  hr_rx_2s_avg :: u64
  hr_tx_10s_avg :: u64
  hr_rx_10s_avg :: u64

record connection_entry =
  ce_local_addr :: socket_addr
  ce_remote_addr :: socket_addr
  ce_protocol :: protocol
  ce_state :: string
  ce_pid :: u32
  ce_tid :: u32
  ce_process :: string
  ce_thread_name :: string
  ce_username :: string
  ce_tx_bytes :: u64
  ce_rx_bytes :: u64

record process_row =
  pr_info :: process_info
  pr_tx_bytes :: u64
  pr_rx_bytes :: u64
  pr_last_seen :: instant
  pr_tx_history :: history
  pr_rx_history :: history
  pr_is_blocked :: bool
  pr_connections :: "connection_entry list"

record interface_stats =
  is_tx_bytes_total :: u64
  is_rx_bytes_total :: u64
  is_current_bandwidth :: u64
  is_peak_bandwidth :: u64
  is_tx_history :: history
  is_rx_history :: history

definition interface_stats_default :: interface_stats where
  "interface_stats_default = \<lparr>is_tx_bytes_total = 0, is_rx_bytes_total = 0,
     is_current_bandwidth = 0, is_peak_bandwidth = 0, is_tx_history = zero_history,
     is_rx_history = zero_history\<rparr>"

record thread_stats =
  info :: process_info
  tx_bytes_total :: u64
  rx_bytes_total :: u64
  last_seen :: instant
  tx_current_second :: u64
  rx_current_second :: u64
  tx_history :: history
  rx_history :: history

type_synonym thread_map = "(thread_key, thread_stats) hashmap"
type_synonym connection_map = "(connection_key, connection_stats) hashmap"

text \<open>
  The local variables of the loop, and what it shares with the GUI: the snapshots, the set
  of blocked PIDs and the session history behind their locks, and the lines written to the
  history file (\<open>None\<close> when it could not be opened).
\<close>

record agg_state =
  ag_resolver :: resolver_cache
  connection_cache :: "resolved_connection list"
  last_proc_scan :: instant
  stats_by_thread :: thread_map
  conn_stats :: connection_map
  if_tx_total :: u64
  if_rx_total :: u64
  if_tx_current_second :: u64
  if_rx_current_second :: u64
  if_tx_history :: history
  if_rx_history :: history
  peak_bw :: u64
  last_rotation :: instant
  history_csv :: "string list option"
  rows_snapshot :: "process_row list rwlock"
  interface_snapshot :: "interface_stats rwlock"
  blocked_pids :: "u32 set rwlock"
  session_history :: "history_csv_row list rwlock"

section \<open>One thread\<close>

definition thread_stats_new :: "instant \<Rightarrow> process_info \<Rightarrow> thread_stats" where
  "thread_stats_new now i = \<lparr>info = i, tx_bytes_total = 0, rx_bytes_total = 0, last_seen = now,
     tx_current_second = 0, rx_current_second = 0, tx_history = zero_history,
     rx_history = zero_history\<rparr>"

text \<open>The loop \<open>for idx in (1..HISTORY_SLOTS).rev()\<close> over one array.\<close>

definition shift_history :: "history \<Rightarrow> history" where
  "shift_history h = fold (\<lambda>idx h. h[idx := h ! (idx - 1)]) (rev [1..<HISTORY_SLOTS]) h"

definition rotate_second :: "thread_stats \<Rightarrow> thread_stats" where
  "rotate_second s = s\<lparr>tx_history := (shift_history (tx_history s))[0 := tx_current_second s],
     rx_history := (shift_history (rx_history s))[0 := rx_current_second s],
     tx_current_second := 0, rx_current_second := 0\<rparr>"

definition two_second_avg :: "history \<Rightarrow> u64" where
  "two_second_avg h = (h ! 0 + h ! 1) div 2"

definition ten_second_avg :: "history \<Rightarrow> u64" where
  "ten_second_avg h = sum_list (take 10 h) div 10"

section \<open>One record\<close>

definition conn_matches :: "flow_key \<Rightarrow> resolved_connection \<Rightarrow> bool" where
  "conn_matches flow conn =
     (if rc_protocol conn \<noteq> fk_protocol flow then False
      else let forward_match = fst (rc_local_addr conn) = src_ip flow
                 \<and> snd (rc_local_addr conn) = src_port flow
                 \<and> fst (rc_remote_addr conn) = dst_ip flow
                 \<and> snd (rc_remote_addr conn) = dst_port flow;
               reverse_match = fst (rc_local_addr conn) = dst_ip flow
                 \<and> snd (rc_local_addr conn) = dst_port flow
                 \<and> fst (rc_remote_addr conn) = src_ip flow
                 \<and> snd (rc_remote_addr conn) = src_port flow
        in forward_match \<or> reverse_match)"

fun lookup_process_from_connections :: "flow_key \<Rightarrow> resolved_connection list \<Rightarrow> process_info option" where
  "lookup_process_from_connections flow [] = None"
| "lookup_process_from_connections flow (conn # cs) =
     (if \<not> conn_matches flow conn then lookup_process_from_connections flow cs
      else Some \<lparr>pi_pid = rc_pid conn, pi_tid = rc_tid conn, pi_name = rc_process conn,
        pi_thread_name = rc_thread_name conn, pi_uid = rc_uid conn, pi_username = rc_username conn\<rparr>)"

definition unknown_process :: process_info where
  "unknown_process = \<lparr>pi_pid = 0, pi_tid = 0, pi_name = UNKNOWN_PROCESS_LABEL,
     pi_thread_name = UNKNOWN_PROCESS_LABEL, pi_uid = 0, pi_username = UNKNOWN_PROCESS_LABEL\<rparr>"

definition connection_key_of :: "flow_record \<Rightarrow> process_info \<Rightarrow> bool \<Rightarrow> connection_key" where
  "connection_key_of rec i is_tx =
     (let (local_ip, local_port, remote_ip, remote_port) =
        (if is_tx then (src_ip (fr_key rec), src_port (fr_key rec), dst_ip (fr_key rec), dst_port (fr_key rec))
         else (dst_ip (fr_key rec), dst_port (fr_key rec), src_ip (fr_key rec), src_port (fr_key rec)))
      in \<lparr>ck_pid = pi_pid i, ck_tid = pi_tid i, ck_local_addr = (local_ip, local_port),
          ck_remote_addr = (remote_ip, remote_port), ck_protocol = fk_protocol (fr_key rec)\<rparr>)"

definition update_connection_stats ::
  "instant \<Rightarrow> flow_record \<Rightarrow> process_info \<Rightarrow> u64 \<Rightarrow> bool \<Rightarrow> connection_map \<Rightarrow> connection_map" where
  "update_connection_stats now rec i bytes is_tx m =
     (let key = connection_key_of rec i is_tx;
          entry = (case hm_get m key of
            Some e \<Rightarrow> e | None \<Rightarrow> \<lparr>cs_tx_bytes = 0, cs_rx_bytes = 0, cs_last_seen = now\<rparr>);
          entry = entry\<lparr>cs_last_seen := now\<rparr>
      in hm_insert key
        (if is_tx then entry\<lparr>cs_tx_bytes := saturating_add (cs_tx_bytes entry) bytes\<rparr>
         else entry\<lparr>cs_rx_bytes := saturating_add (cs_rx_bytes entry) bytes\<rparr>) m)"

text \<open>\<open>process_record\<close> once the owner is known.\<close>

definition apply_record :: "instant \<Rightarrow> process_info \<Rightarrow> flow_record \<Rightarrow> agg_state \<Rightarrow> agg_state" where
  "apply_record now i rec s =
     (let key = ThreadKey (pi_pid i) (pi_tid i);
          bytes = ucast (byte_count rec) :: u64;
          entry = (case hm_get (stats_by_thread s) key of
            Some e \<Rightarrow> e | None \<Rightarrow> thread_stats_new now i);
          entry = entry\<lparr>info := i, last_seen := now\<rparr>
      in case fr_direction rec of
        Tx \<Rightarrow> s\<lparr>
          stats_by_thread := hm_insert key (entry\<lparr>
            tx_bytes_total := saturating_add (tx_bytes_total entry) bytes,
            tx_current_second := saturating_add (tx_current_second entry) bytes\<rparr>) (stats_by_thread s),
          if_tx_total := saturating_add (if_tx_total s) bytes,
          if_tx_current_second := saturating_add (if_tx_current_second s) bytes,
          conn_stats := update_connection_stats now rec i bytes True (conn_stats s)\<rparr>
      | Rx \<Rightarrow> s\<lparr>
          stats_by_thread := hm_insert key (entry\<lparr>
            rx_bytes_total := saturating_add (rx_bytes_total entry) bytes,
            rx_current_second := saturating_add (rx_current_second entry) bytes\<rparr>) (stats_by_thread s),
          if_rx_total := saturating_add (if_rx_total s) bytes,
          if_rx_current_second := saturating_add (if_rx_current_second s) bytes,
          conn_stats := update_connection_stats now rec i bytes False (conn_stats s)\<rparr>)"

definition process_record :: "instant \<Rightarrow> resolver_world \<Rightarrow> flow_record \<Rightarrow> agg_state \<Rightarrow> agg_state option" where
  "process_record now w rec s = do {
     (owner, r) \<leftarrow> resolve_flow_owner now w (fr_key rec) (ag_resolver s);
     let i = (case owner of
        Some i \<Rightarrow> i
      | None \<Rightarrow> (case lookup_process_from_connections (fr_key rec) (connection_cache s) of
          Some i \<Rightarrow> i | None \<Rightarrow> unknown_process));
     Some (apply_record now i rec (s\<lparr>ag_resolver := r\<rparr>))
   }"

text \<open>
  \<open>drain_flow_channel\<close>: the records are those the first \<open>recv_timeout\<close> and the following
  \<open>try_recv\<close> calls return, each with the clock and the world at that moment; none at all
  means that the wait timed out or that the channel is closed.
\<close>

fun drain_flow_channel ::
  "(instant \<times> resolver_world \<times> flow_record) list \<Rightarrow> agg_state \<Rightarrow> agg_state option" where
  "drain_flow_channel [] s = Some s"
| "drain_flow_channel ((now, w, rec) # rs) s = do {
     s \<leftarrow> process_record now w rec s;
     drain_flow_channel rs s
   }"

section \<open>Housekeeping\<close>

definition exited_suffix :: string where "exited_suffix = '' [exited]''"

definition mark_exited :: "process_info option \<Rightarrow> thread_stats \<Rightarrow> thread_stats" where
  "mark_exited found s =
     (if found = None \<and> \<not> ends_with exited_suffix (pi_name (info s))
      then s\<lparr>info := (info s)\<lparr>pi_name := pi_name (info s) @ exited_suffix\<rparr>\<rparr> else s)"

fun mark_exited_loop ::
  "instant \<Rightarrow> resolver_world \<Rightarrow> (thread_key \<times> thread_stats) list \<Rightarrow> resolver_cache
   \<Rightarrow> ((thread_key \<times> thread_stats) list \<times> resolver_cache) option" where
  "mark_exited_loop now w [] r = Some ([], r)"
| "mark_exited_loop now w ((key, stats) # es) r =
     (if tk_pid key = 0 then do {
        (es, r) \<leftarrow> mark_exited_loop now w es r;
        Some ((key, stats) # es, r)
      }
      else do {
        (found, r) \<leftarrow> process_by_pid now w (tk_pid key) r;
        (es, r) \<leftarrow> mark_exited_loop now w es r;
        Some ((key, mark_exited found stats) # es, r)
      })"

definition mark_exited_threads :: "instant \<Rightarrow> resolver_world \<Rightarrow> agg_state \<Rightarrow> agg_state option" where
  "mark_exited_threads now w s = do {
     (m, r) \<leftarrow> mark_exited_loop now w (stats_by_thread s) (ag_resolver s);
     Some (s\<lparr>stats_by_thread := m, ag_resolver := r\<rparr>)
   }"

definition evict_stale_threads :: "instant \<Rightarrow> agg_state \<Rightarrow> agg_state" where
  "evict_stale_threads now s = s\<lparr>stats_by_thread :=
     hm_retain (\<lambda>_ stats. elapsed now (last_seen stats) \<le> PROCESS_EVICTION_TIMEOUT) (stats_by_thread s)\<rparr>"

definition prune_connection_stats :: "instant \<Rightarrow> agg_state \<Rightarrow> agg_state" where
  "prune_connection_stats now s = s\<lparr>conn_stats :=
     hm_retain (\<lambda>key stats.
       if PROCESS_EVICTION_TIMEOUT < elapsed now (cs_last_seen stats) then False
       else hm_get (stats_by_thread s) (ThreadKey (ck_pid key) (ck_tid key)) \<noteq> None) (conn_stats s)\<rparr>"

definition refresh_connection_cache_if_due ::
  "instant \<Rightarrow> resolver_world \<Rightarrow> agg_state \<Rightarrow> agg_state option" where
  "refresh_connection_cache_if_due now w s =
     (if RESOLVER_SCAN_INTERVAL \<le> elapsed now (last_proc_scan s) then do {
        (_, r) \<leftarrow> refresh_if_needed now w (ag_resolver s);
        (conns, r) \<leftarrow> list_connections now w r;
        Some (s\<lparr>ag_resolver := r, connection_cache := conns,
                last_proc_scan := now + int (w_scan_time w)\<rparr>)
      }
      else Some s)"

definition rotate_interface_second :: "agg_state \<Rightarrow> agg_state" where
  "rotate_interface_second s = s\<lparr>
     if_tx_history := (shift_history (if_tx_history s))[0 := if_tx_current_second s],
     if_rx_history := (shift_history (if_rx_history s))[0 := if_rx_current_second s],
     if_tx_current_second := 0, if_rx_current_second := 0\<rparr>"

definition rotate_histories_if_due :: "instant \<Rightarrow> agg_state \<Rightarrow> bool \<times> agg_state" where
  "rotate_histories_if_due now s =
     (if elapsed now (last_rotation s) < from_secs 1 then (False, s)
      else
        let s = s\<lparr>stats_by_thread := hm_map (\<lambda>_. rotate_second) (stats_by_thread s)\<rparr>;
            s = rotate_interface_second s;
            current_bandwidth = if_tx_history s ! 0 + if_rx_history s ! 0;
            s = (if peak_bw s < current_bandwidth then s\<lparr>peak_bw := current_bandwidth\<rparr> else s)
        in (True, s\<lparr>last_rotation := now\<rparr>))"

section \<open>The history file\<close>

definition sanitize_csv :: "string \<Rightarrow> string" where
  "sanitize_csv v = replace_char (CHR '','') (CHR '' '') (replace_char (CHR 0x22) (CHR 0x27) v)"

definition history_row :: "u64 \<Rightarrow> thread_stats \<Rightarrow> history_csv_row" where
  "history_row ts stats = \<lparr>hr_timestamp = ts, hr_pid = pi_pid (info stats), hr_tid = pi_tid (info stats),
     hr_process = pi_name (info stats), hr_thread = pi_thread_name (info stats),
     hr_user = pi_username (info stats), hr_uid = pi_uid (info stats),
     hr_tx_bytes_total = tx_bytes_total stats, hr_rx_bytes_total = rx_bytes_total stats,
     hr_tx_2s_avg = two_second_avg (tx_history stats), hr_rx_2s_avg = two_second_avg (rx_history stats),
     hr_tx_10s_avg = ten_second_avg (tx_history stats), hr_rx_10s_avg = ten_second_avg (rx_history stats)\<rparr>"

definition history_fields :: "u64 \<Rightarrow> thread_stats \<Rightarrow> string list" where
  "history_fields ts stats = [show_word ts, show_word (pi_pid (info stats)), show_word (pi_tid (info stats)),
     sanitize_csv (pi_name (info stats)), sanitize_csv (pi_thread_name (info stats)),
     sanitize_csv (pi_username (info stats)), show_word (pi_uid (info stats)),
     show_word (tx_bytes_total stats), show_word (rx_bytes_total stats),
     show_word (two_second_avg (tx_history stats)), show_word (two_second_avg (rx_history stats)),
     show_word (ten_second_avg (tx_history stats)), show_word (ten_second_avg (rx_history stats))]"

definition history_line :: "u64 \<Rightarrow> thread_stats \<Rightarrow> string" where
  "history_line ts stats = join_strs '','' (history_fields ts stats) @ [newline]"

text \<open>Called with the file open; a write that fails is ignored by the code.\<close>

definition append_history_csv :: "u64 \<Rightarrow> string list \<Rightarrow> agg_state \<Rightarrow> agg_state" where
  "append_history_csv ts file s = s\<lparr>
     history_csv := Some (file @ map (history_line ts) (hm_values (stats_by_thread s))),
     session_history := lock_write (\<lambda>h. h @ map (history_row ts) (hm_values (stats_by_thread s)))
       (session_history s)\<rparr>"

definition get_user_home :: "(string \<Rightarrow> string option) \<Rightarrow> (string \<Rightarrow> string + string) \<Rightarrow> string" where
  "get_user_home env_var read_to_string =
     (let home = (case env_var ''HOME'' of Some h \<Rightarrow> h | None \<Rightarrow> ''/tmp'') in
      case env_var ''SUDO_USER'' of
        None \<Rightarrow> home
      | Some sudo_user \<Rightarrow>
          (case read_to_string ''/etc/passwd'' of
             Inl e \<Rightarrow> home
           | Inr passwd \<Rightarrow>
               (case find (\<lambda>cols. 6 \<le> length cols \<and> cols ! 0 = sudo_user)
                      (map (split_by (\<lambda>c. c = CHR '':'')) (str_lines passwd)) of
                  Some cols \<Rightarrow> cols ! 5 | None \<Rightarrow> home)))"

definition csv_header :: string where
  "csv_header = ''timestamp,pid,tid,process,thread,user,uid,'' @ ''tx_bytes_total,rx_bytes_total,''
     @ ''tx_2s_avg,rx_2s_avg,tx_10s_avg,rx_10s_avg'' @ [newline]"

text \<open>\<open>create\<close> stands for opening the path and writing the header to it.\<close>

definition open_history_csv ::
  "(string \<Rightarrow> string option) \<Rightarrow> (string \<Rightarrow> string + string) \<Rightarrow> u64 \<Rightarrow> (string \<Rightarrow> string \<Rightarrow> bool)
   \<Rightarrow> string list option" where
  "open_history_csv env_var read_to_string ts create =
     (let path = get_user_home env_var read_to_string @ ''/netmon_history_'' @ show_word ts @ ''.csv''
      in if create path csv_header then Some [csv_header] else None)"

section \<open>Snapshots\<close>

definition connection_bytes :: "connection_map \<Rightarrow> resolved_connection \<Rightarrow> u64 \<times> u64" where
  "connection_bytes m conn =
     (let stats_key = \<lparr>ck_pid = rc_pid conn, ck_tid = rc_tid conn, ck_local_addr = rc_local_addr conn,
            ck_remote_addr = rc_remote_addr conn, ck_protocol = rc_protocol conn\<rparr>;
          reverse_key = \<lparr>ck_pid = rc_pid conn, ck_tid = rc_tid conn, ck_local_addr = rc_remote_addr conn,
            ck_remote_addr = rc_local_addr conn, ck_protocol = rc_protocol conn\<rparr>
      in case hm_get m stats_key of
        Some stats \<Rightarrow> (cs_tx_bytes stats, cs_rx_bytes stats)
      | None \<Rightarrow> (case hm_get m reverse_key of
          Some stats \<Rightarrow> (cs_rx_bytes stats, cs_tx_bytes stats)
        | None \<Rightarrow> (0, 0)))"

definition entry_of_connection :: "connection_map \<Rightarrow> resolved_connection \<Rightarrow> connection_entry" where
  "entry_of_connection m conn =
     (let (tx_bytes, rx_bytes) = connection_bytes m conn in
      \<lparr>ce_local_addr = rc_local_addr conn, ce_remote_addr = rc_remote_addr conn,
       ce_protocol = rc_protocol conn, ce_state = rc_state conn, ce_pid = rc_pid conn,
       ce_tid = rc_tid conn, ce_process = rc_process conn, ce_thread_name = rc_thread_name conn,
       ce_username = rc_username conn, ce_tx_bytes = tx_bytes, ce_rx_bytes = rx_bytes\<rparr>)"

definition push_connection ::
  "connection_map \<Rightarrow> resolved_connection \<Rightarrow> (thread_key, connection_entry list) hashmap
   \<Rightarrow> (thread_key, connection_entry list) hashmap" where
  "push_connection m conn by_thread =
     (let key = ThreadKey (rc_pid conn) (rc_tid conn);
          old = (case hm_get by_thread key of Some es \<Rightarrow> es | None \<Rightarrow> [])
      in hm_insert key (old @ [entry_of_connection m conn]) by_thread)"

text \<open>The rows, each taking its connections out of the map.\<close>

fun build_rows ::
  "u32 set \<Rightarrow> (thread_key \<times> thread_stats) list \<Rightarrow> (thread_key, connection_entry list) hashmap
   \<Rightarrow> process_row list" where
  "build_rows blocked [] by_thread = []"
| "build_rows blocked ((key, stats) # es) by_thread =
     \<lparr>pr_info = info stats, pr_tx_bytes = tx_bytes_total stats, pr_rx_bytes = rx_bytes_total stats,
      pr_last_seen = last_seen stats, pr_tx_history = tx_history stats,
      pr_rx_history = rx_history stats, pr_is_blocked = (tk_pid key \<in> blocked),
      pr_connections = (case hm_get by_thread key of Some cs \<Rightarrow> cs | None \<Rightarrow> [])\<rparr>
     # build_rows blocked es (hm_remove key by_thread)"

instantiation thread_key :: linorder
begin

definition less_eq_thread_key :: "thread_key \<Rightarrow> thread_key \<Rightarrow> bool" where
  "less_eq_thread_key a b \<longleftrightarrow> tk_pid a < tk_pid b \<or> (tk_pid a = tk_pid b \<and> tk_tid a \<le> tk_tid b)"

definition less_thread_key :: "thread_key \<Rightarrow> thread_key \<Rightarrow> bool" where
  "less_thread_key a b \<longleftrightarrow> tk_pid a < tk_pid b \<or> (tk_pid a = tk_pid b \<and> tk_tid a < tk_tid b)"

instance
  by standard (auto simp: less_eq_thread_key_def less_thread_key_def thread_key.expand)

end

text \<open>The tuples the rows are sorted by are compared like thread keys.\<close>

definition row_key :: "process_row \<Rightarrow> thread_key" where
  "row_key r = ThreadKey (pi_pid (pr_info r)) (pi_tid (pr_info r))"

definition published_rows ::
  "u32 set \<Rightarrow> resolved_connection list \<Rightarrow> connection_map \<Rightarrow> thread_map \<Rightarrow> process_row list" where
  "published_rows blocked conns cstats threads =
     sort_key row_key (build_rows blocked threads (fold (push_connection cstats) conns []))"

definition published_interface :: "agg_state \<Rightarrow> interface_stats \<Rightarrow> interface_stats" where
  "published_interface s iface = iface\<lparr>is_tx_bytes_total := if_tx_total s,
     is_rx_bytes_total := if_rx_total s,
     is_current_bandwidth := saturating_add (if_tx_history s ! 0) (if_rx_history s ! 0),
     is_peak_bandwidth := peak_bw s, is_tx_history := if_tx_history s,
     is_rx_history := if_rx_history s\<rparr>"

definition publish_snapshots :: "agg_state \<Rightarrow> agg_state" where
  "publish_snapshots s =
     (let blocked = (case lock_read (blocked_pids s) of Some b \<Rightarrow> b | None \<Rightarrow> {});
          rows = published_rows blocked (connection_cache s) (conn_stats s) (stats_by_thread s)
      in s\<lparr>rows_snapshot := lock_write (\<lambda>_. rows) (rows_snapshot s),
           interface_snapshot := lock_write (published_interface s) (interface_snapshot s)\<rparr>)"

section \<open>The loop\<close>

text \<open>
  What one iteration meets: the clock and the world for the operations outside the drain,
  the records received, and the wall clock of the history file.
\<close>

record tick =
  t_now :: instant
  t_world :: resolver_world
  t_records :: "(instant \<times> resolver_world \<times> flow_record) list"
  t_after :: instant
  t_unix :: u64

definition agg_iteration :: "tick \<Rightarrow> agg_state \<Rightarrow> agg_state option" where
  "agg_iteration t s = do {
     s \<leftarrow> refresh_connection_cache_if_due (t_now t) (t_world t) s;
     s \<leftarrow> drain_flow_channel (t_records t) s;
     s \<leftarrow> mark_exited_threads (t_after t) (t_world t) s;
     let s = evict_stale_threads (t_after t) s;
     let s = prune_connection_stats (t_after t) s;
     let (rotated, s) = rotate_histories_if_due (t_after t) s;
     let s = (if rotated then (case history_csv s of
                Some csv_file \<Rightarrow> append_history_csv (t_unix t) csv_file s | None \<Rightarrow> s) else s);
     Some (publish_snapshots s)
   }"

fun run_agg_iterations :: "tick list \<Rightarrow> agg_state \<Rightarrow> agg_state option" where
  "run_agg_iterations [] s = Some s"
| "run_agg_iterations (t # ts) s = do {
     s \<leftarrow> agg_iteration t s;
     run_agg_iterations ts s
   }"

text \<open>What the aggregator shares with the GUI when it is spawned.\<close>

record agg_shared =
  sh_rows :: "process_row list rwlock"
  sh_interface :: "interface_stats rwlock"
  sh_status :: "string rwlock"
  sh_blocked :: "u32 set rwlock"
  sh_history :: "history_csv_row list rwlock"

definition agg_init ::
  "instant \<Rightarrow> resolver_cache \<Rightarrow> string list option \<Rightarrow> agg_shared \<Rightarrow> agg_state" where
  "agg_init now r csv sh = \<lparr>ag_resolver = r, connection_cache = [],
     last_proc_scan = now - int (from_secs 1), stats_by_thread = [], conn_stats = [],
     if_tx_total = 0, if_rx_total = 0, if_tx_current_second = 0, if_rx_current_second = 0,
     if_tx_history = zero_history, if_rx_history = zero_history, peak_bw = 0,
     last_rotation = now, history_csv = csv, rows_snapshot = sh_rows sh,
     interface_snapshot = sh_interface sh, blocked_pids = sh_blocked sh,
     session_history = sh_history sh\<rparr>"

text \<open>
  The loop up to the iterations given; on the left the status it leaves when the resolver
  cannot be created. \<open>describe\<close> prints the error.
\<close>

definition run_aggregator_loop ::
  "(resolver_error \<Rightarrow> string) \<Rightarrow> instant \<Rightarrow> resolver_world \<Rightarrow> string list option \<Rightarrow> tick list \<Rightarrow> agg_shared
   \<Rightarrow> (string rwlock + agg_state) option" where
  "run_aggregator_loop describe now w csv ticks sh =
     (case resolver_new now w of
        Inl error \<Rightarrow> Some (Inl (lock_write
          (\<lambda>_. ''Resolver initialization failed: '' @ describe error) (sh_status sh)))
      | Inr r \<Rightarrow> map_option Inr (run_agg_iterations ticks (agg_init now r csv sh)))"

subsection \<open>Joining the thread\<close>

record aggregator_control =
  ag_join_handle :: "unit option"

datatype thread_end = Finished | Crashed | StillRunning

definition agg_join :: "thread_end \<Rightarrow> aggregator_control \<Rightarrow> (string + unit) \<times> aggregator_control" where
  "agg_join res c =
     (case ag_join_handle c of
        None \<Rightarrow> (Inr (), c)
      | Some h \<Rightarrow> (if res = Crashed then Inl ''aggregator thread panicked'' else Inr (),
          c\<lparr>ag_join_handle := None\<rparr>))"

definition agg_join_timeout ::
  "thread_end \<Rightarrow> aggregator_control \<Rightarrow> (string + unit) \<times> aggregator_control" where
  "agg_join_timeout res c =
     (case ag_join_handle c of
        None \<Rightarrow> (Inr (), c)
      | Some h \<Rightarrow>
          (case res of
             Finished \<Rightarrow> Inr ()
           | Crashed \<Rightarrow> Inl ''aggregator thread panicked''
           | StillRunning \<Rightarrow> Inl ''aggregator thread join timed out'',
           c\<lparr>ag_join_handle := None\<rparr>))"

end
