(* ===== verification/Aggregator_Inv.thy ===== *)
theory Aggregator_Inv
  imports Aggregator
begin

text \<open>
  The invariants of the aggregator and its accounting: every operation keeps the counters
  of threads, connections and the interface consistent with each other, so that after any
  number of iterations the interface totals are exactly the bytes received, the threads
  account for no more than that, and each thread's connections for no more than the thread.
  Then the results on rotation, eviction, the rate gates and the published snapshots.
\<close>

section \<open>Selectors by direction\<close>

fun tot :: "direction \<Rightarrow> thread_stats \<Rightarrow> u64" where
  "tot Tx st = tx_bytes_total st" | "tot Rx st = rx_bytes_total st"

fun cur :: "direction \<Rightarrow> thread_stats \<Rightarrow> u64" where
  "cur Tx st = tx_current_second st" | "cur Rx st = rx_current_second st"

fun hist :: "direction \<Rightarrow> thread_stats \<Rightarrow> history" where
  "hist Tx st = tx_history st" | "hist Rx st = rx_history st"

fun if_tot :: "direction \<Rightarrow> agg_state \<Rightarrow> u64" where
  "if_tot Tx s = if_tx_total s" | "if_tot Rx s = if_rx_total s"

fun if_cur :: "direction \<Rightarrow> agg_state \<Rightarrow> u64" where
  "if_cur Tx s = if_tx_current_second s" | "if_cur Rx s = if_rx_current_second s"

fun if_hist :: "direction \<Rightarrow> agg_state \<Rightarrow> history" where
  "if_hist Tx s = if_tx_history s" | "if_hist Rx s = if_rx_history s"

fun cbytes :: "direction \<Rightarrow> connection_stats \<Rightarrow> u64" where
  "cbytes Tx c = cs_tx_bytes c" | "cbytes Rx c = cs_rx_bytes c"

definition thread_of :: "connection_key \<Rightarrow> thread_key" where
  "thread_of k = ThreadKey (ck_pid k) (ck_tid k)"

definition info_key :: "process_info \<Rightarrow> thread_key" where
  "info_key i = ThreadKey (pi_pid i) (pi_tid i)"

definition hsum :: "history \<Rightarrow> nat" where
  "hsum h = sum_list (map unat h)"

definition threads_sum :: "direction \<Rightarrow> thread_map \<Rightarrow> nat" where
  "threads_sum d m = hm_sum (\<lambda>_ st. unat (tot d st)) m"

definition conns_sum :: "direction \<Rightarrow> thread_key \<Rightarrow> connection_map \<Rightarrow> nat" where
  "conns_sum d k m = hm_sum (\<lambda>ck c. if thread_of ck = k then unat (cbytes d c) else 0) m"

lemma all_direction: "(\<forall>d. P d) \<longleftrightarrow> P Tx \<and> P Rx"
  by (metis direction.exhaust)

section \<open>Histories\<close>

lemma shift_upto:
  "1 \<le> n \<Longrightarrow> n \<le> length h \<Longrightarrow>
   fold (\<lambda>idx h. h[idx := h ! (idx - 1)]) (rev [1..<n]) h = take 1 h @ take (n - 1) h @ drop n h"
  for h :: history
proof (induction n arbitrary: h)
  case (Suc n)
  show ?case
  proof (cases "n = 0")
    case True
    then show ?thesis using append_take_drop_id [of 1 h] by simp
  next
    case False
    let ?h = "h[n := h ! (n - 1)]"
    have n: "1 \<le> n" "n < length h" using Suc.prems False by auto
    have "fold (\<lambda>idx h. h[idx := h ! (idx - 1)]) (rev [1..<Suc n]) h
        = fold (\<lambda>idx h. h[idx := h ! (idx - 1)]) (rev [1..<n]) ?h"
      using n by simp
    also have "\<dots> = take 1 ?h @ take (n - 1) ?h @ drop n ?h"
      using n by (intro Suc.IH) simp_all
    also have "\<dots> = take 1 h @ take (n - 1) h @ h ! (n - 1) # drop (Suc n) h"
      using n by (simp add: drop_update_swap flip: Cons_nth_drop_Suc)
    also have "\<dots> = take 1 h @ take n h @ drop (Suc n) h"
      using n take_Suc_conv_app_nth [of "n - 1" h] by simp
    finally show ?thesis by simp
  qed
qed simp

lemma shift_history_push:
  assumes "length h = HISTORY_SLOTS"
  shows "(shift_history h)[0 := c] = c # butlast h"
proof -
  have "shift_history h = take 1 h @ take (HISTORY_SLOTS - 1) h @ drop HISTORY_SLOTS h"
    unfolding shift_history_def using assms by (intro shift_upto) (simp_all add: HISTORY_SLOTS_def)
  moreover obtain x xs where "h = x # xs" using assms by (cases h) (auto simp: HISTORY_SLOTS_def)
  ultimately show ?thesis using assms by (simp add: butlast_conv_take)
qed

lemma hsum_butlast: "hsum (butlast h) \<le> hsum h"
  by (induction h) (auto simp: hsum_def)

lemma hsum_Cons [simp]: "hsum (c # h) = unat c + hsum h"
  by (simp add: hsum_def)

lemma hsum_zero [simp]: "hsum zero_history = 0"
proof -
  have "sum_list (map unat (replicate n (0 :: u64))) = 0" for n by (induction n) simp_all
  then show ?thesis by (simp add: hsum_def zero_history_def)
qed

lemma length_zero_history [simp]: "length zero_history = HISTORY_SLOTS"
  by (simp add: zero_history_def)

section \<open>The structural invariant\<close>

definition thread_ok :: "thread_key \<Rightarrow> thread_stats \<Rightarrow> bool" where
  "thread_ok k st \<longleftrightarrow> k = info_key (info st) \<and> (\<forall>d. length (hist d st) = HISTORY_SLOTS)"

definition agg_ok :: "agg_state \<Rightarrow> bool" where
  "agg_ok s \<longleftrightarrow> cache_ok (ag_resolver s) \<and> hm_invar (stats_by_thread s) \<and> hm_invar (conn_stats s)
     \<and> (\<forall>k st. hm_get (stats_by_thread s) k = Some st \<longrightarrow> thread_ok k st)
     \<and> (\<forall>d. length (if_hist d s) = HISTORY_SLOTS)
     \<and> (\<forall>ck c. hm_get (conn_stats s) ck = Some c \<longrightarrow> hm_get (stats_by_thread s) (thread_of ck) \<noteq> None)"

lemma agg_okD:
  assumes "agg_ok s"
  shows "cache_ok (ag_resolver s)" "hm_invar (stats_by_thread s)" "hm_invar (conn_stats s)"
    "hm_get (stats_by_thread s) k = Some st \<Longrightarrow> thread_ok k st"
    "length (if_hist d s) = HISTORY_SLOTS"
    "hm_get (conn_stats s) ck = Some c \<Longrightarrow> hm_get (stats_by_thread s) (thread_of ck) \<noteq> None"
  using assms by (auto simp: agg_ok_def)

text \<open>The thread and connection entries a record is applied to.\<close>

definition thread_entry :: "instant \<Rightarrow> process_info \<Rightarrow> agg_state \<Rightarrow> thread_stats" where
  "thread_entry now i s = (case hm_get (stats_by_thread s) (info_key i) of
     Some e \<Rightarrow> e | None \<Rightarrow> thread_stats_new now i)"

definition bytes_of :: "flow_record \<Rightarrow> u64" where
  "bytes_of rec = ucast (byte_count rec)"

definition add_thread_bytes :: "instant \<Rightarrow> process_info \<Rightarrow> flow_record \<Rightarrow> thread_stats \<Rightarrow> thread_stats" where
  "add_thread_bytes now i rec e =
     (let e = e\<lparr>info := i, last_seen := now\<rparr>; b = bytes_of rec in
      case fr_direction rec of
        Tx \<Rightarrow> e\<lparr>tx_bytes_total := saturating_add (tx_bytes_total e) b,
                tx_current_second := saturating_add (tx_current_second e) b\<rparr>
      | Rx \<Rightarrow> e\<lparr>rx_bytes_total := saturating_add (rx_bytes_total e) b,
                rx_current_second := saturating_add (rx_current_second e) b\<rparr>)"

lemma apply_record_stats:
  "stats_by_thread (apply_record now i rec s)
     = hm_insert (info_key i) (add_thread_bytes now i rec (thread_entry now i s)) (stats_by_thread s)"
  by (simp add: apply_record_def Let_def info_key_def add_thread_bytes_def bytes_of_def
      thread_entry_def split: direction.split)

lemma apply_record_conns:
  "conn_stats (apply_record now i rec s)
     = update_connection_stats now rec i (bytes_of rec) (fr_direction rec = Tx) (conn_stats s)"
  by (simp add: apply_record_def Let_def bytes_of_def split: direction.split)

lemma apply_record_if:
  "if_tot d (apply_record now i rec s) =
     (if d = fr_direction rec then saturating_add (if_tot d s) (bytes_of rec) else if_tot d s)"
  "if_cur d (apply_record now i rec s) =
     (if d = fr_direction rec then saturating_add (if_cur d s) (bytes_of rec) else if_cur d s)"
  "if_hist d (apply_record now i rec s) = if_hist d s"
  by (cases d; cases "fr_direction rec"; simp add: apply_record_def Let_def bytes_of_def)+

lemma apply_record_frame:
  "ag_resolver (apply_record now i rec s) = ag_resolver s"
  "connection_cache (apply_record now i rec s) = connection_cache s"
  "peak_bw (apply_record now i rec s) = peak_bw s"
  "last_rotation (apply_record now i rec s) = last_rotation s"
  "last_proc_scan (apply_record now i rec s) = last_proc_scan s"
  by (simp_all add: apply_record_def Let_def split: direction.split)

lemma add_thread_bytes_sel:
  "tot d (add_thread_bytes now i rec e) =
     (if d = fr_direction rec then saturating_add (tot d e) (bytes_of rec) else tot d e)"
  "cur d (add_thread_bytes now i rec e) =
     (if d = fr_direction rec then saturating_add (cur d e) (bytes_of rec) else cur d e)"
  "hist d (add_thread_bytes now i rec e) = hist d e"
  "info (add_thread_bytes now i rec e) = i"
  "last_seen (add_thread_bytes now i rec e) = now"
  by (cases d; cases "fr_direction rec"; simp add: add_thread_bytes_def Let_def)+

lemma thread_stats_new_sel [simp]:
  "tot d (thread_stats_new now i) = 0" "cur d (thread_stats_new now i) = 0"
  "hist d (thread_stats_new now i) = zero_history" "info (thread_stats_new now i) = i"
  by (cases d; simp add: thread_stats_new_def)+

lemma thread_of_connection_key [simp]: "thread_of (connection_key_of rec i is_tx) = info_key i"
  by (simp add: connection_key_of_def thread_of_def info_key_def split: prod.split)

definition conn_entry :: "instant \<Rightarrow> connection_key \<Rightarrow> connection_map \<Rightarrow> connection_stats" where
  "conn_entry now key m = (case hm_get m key of
     Some e \<Rightarrow> e | None \<Rightarrow> \<lparr>cs_tx_bytes = 0, cs_rx_bytes = 0, cs_last_seen = now\<rparr>)"

lemma update_connection_stats_insert:
  "\<exists>c. update_connection_stats now rec i b (r = Tx) m = hm_insert (connection_key_of rec i (r = Tx)) c m
     \<and> cs_last_seen c = now
     \<and> (\<forall>d. cbytes d c = (if d = r then saturating_add (cbytes d (conn_entry now (connection_key_of rec i (r = Tx)) m)) b
           else cbytes d (conn_entry now (connection_key_of rec i (r = Tx)) m)))"
  unfolding all_direction
  by (cases r; simp only: update_connection_stats_def Let_def conn_entry_def [symmetric];
      intro exI conjI, rule refl; simp)

lemma apply_record_ok:
  assumes "agg_ok s"
  shows "agg_ok (apply_record now i rec s)"
proof -
  obtain c where c: "update_connection_stats now rec i (bytes_of rec) (fr_direction rec = Tx) (conn_stats s)
      = hm_insert (connection_key_of rec i (fr_direction rec = Tx)) c (conn_stats s)"
    using update_connection_stats_insert by blast
  have entry: "length (hist d (thread_entry now i s)) = HISTORY_SLOTS" for d
    using agg_okD(4) [OF assms] by (auto simp: thread_entry_def thread_ok_def split: option.split)
  show ?thesis
    using assms unfolding agg_ok_def apply_record_stats apply_record_conns c apply_record_frame
      apply_record_if
    by (auto simp: hm_simps thread_ok_def add_thread_bytes_sel entry)
qed

lemma resolver_frame:
  "agg_ok s \<Longrightarrow> cache_ok r \<Longrightarrow> agg_ok (s\<lparr>ag_resolver := r\<rparr>)"
  by (simp add: agg_ok_def all_direction)

lemma process_record_cases:
  assumes "process_record now w rec s = Some s'"
  obtains i r where "s' = apply_record now i rec (s\<lparr>ag_resolver := r\<rparr>)"
    and "cache_ok (ag_resolver s) \<longrightarrow> cache_ok r"
  using assms resolve_flow_owner_cache
  by (auto simp: process_record_def bind_eq_Some_conv Let_def)

lemma process_record_ok: "agg_ok s \<Longrightarrow> process_record now w rec s = Some s' \<Longrightarrow> agg_ok s'"
  by (elim process_record_cases) (auto intro!: apply_record_ok resolver_frame dest: agg_okD(1))

lemma drain_ok: "agg_ok s \<Longrightarrow> drain_flow_channel rs s = Some s' \<Longrightarrow> agg_ok s'"
proof (induction rs arbitrary: s)
  case (Cons x rs)
  obtain now w rec where x: "x = (now, w, rec)" by (cases x)
  with Cons.prems obtain s1 where "process_record now w rec s = Some s1" "drain_flow_channel rs s1 = Some s'"
    by (auto simp: bind_eq_Some_conv)
  with Cons show ?case using process_record_ok by blast
qed simp

text \<open>Marking changes names only.\<close>

lemma mark_exited_sel [simp]:
  "tot d (mark_exited f st) = tot d st" "cur d (mark_exited f st) = cur d st"
  "hist d (mark_exited f st) = hist d st" "info_key (info (mark_exited f st)) = info_key (info st)"
  "last_seen (mark_exited f st) = last_seen st"
  by (simp_all add: mark_exited_def info_key_def) (cases d; simp)+

definition found_in :: "resolver_cache \<Rightarrow> u32 \<Rightarrow> process_info option" where
  "found_in r pid = find (\<lambda>info. pi_pid info = pid) (hm_values (inode_to_process r))"

definition mark_in :: "resolver_cache \<Rightarrow> thread_key \<Rightarrow> thread_stats \<Rightarrow> thread_stats" where
  "mark_in r k st = (if tk_pid k = 0 then st else mark_exited (found_in r (tk_pid k)) st)"

lemma mark_exited_loop_map:
  "refresh_if_needed now w r = Some (x, r1) \<Longrightarrow>
   mark_exited_loop now w es r = Some (hm_map (mark_in r1) es, if \<forall>(k, st) \<in> set es. tk_pid k = 0 then r else r1)"
proof (induction es arbitrary: r x)
  case (Cons e es)
  obtain k st where e: "e = (k, st)" by (cases e)
  show ?case
  proof (cases "tk_pid k = 0")
    case True
    with Cons e show ?thesis by (simp add: hm_map_def mark_in_def)
  next
    case False
    obtain y where "refresh_if_needed now w r1 = Some (y, r1)"
      using refresh_idem [OF Cons.prems] by blast
    from Cons.IH [OF this] Cons.prems e False show ?thesis
      by (simp add: process_by_pid_def found_in_def mark_in_def hm_map_def)
  qed
qed (simp add: hm_map_def)

lemma mark_exited_loop_None:
  "refresh_if_needed now w r = None \<Longrightarrow>
   mark_exited_loop now w es r = (if \<forall>(k, st) \<in> set es. tk_pid k = 0 then Some (es, r) else None)"
proof (induction es)
  case (Cons e es)
  then show ?case by (cases e) (auto simp: process_by_pid_def)
qed simp

lemma mark_exited_threads_cases:
  assumes "mark_exited_threads now w s = Some s'"
  obtains seen r where "s' = s\<lparr>stats_by_thread := hm_map (mark_in seen) (stats_by_thread s), ag_resolver := r\<rparr>"
    and "cache_ok (ag_resolver s) \<longrightarrow> cache_ok r"
proof (cases "refresh_if_needed now w (ag_resolver s)")
  case None
  from assms mark_exited_loop_None [OF None, of "stats_by_thread s"]
  have all: "\<forall>(k, st) \<in> set (stats_by_thread s). tk_pid k = 0" and s': "s' = s"
    by (auto simp: mark_exited_threads_def bind_eq_Some_conv split: if_splits)
  have "hm_map (mark_in (ag_resolver s)) (stats_by_thread s) = stats_by_thread s"
    unfolding hm_map_def using all by (intro map_idI) (auto simp: mark_in_def)
  with s' show ?thesis by (intro that [where seen = "ag_resolver s" and r = "ag_resolver s"]) simp_all
next
  case (Some p)
  obtain x r1 where p: "refresh_if_needed now w (ag_resolver s) = Some (x, r1)"
    using Some by (cases p) auto
  with assms mark_exited_loop_map [OF p, of "stats_by_thread s"] show ?thesis
    by (intro that [where seen = r1 and
       r = "if \<forall>(k, st) \<in> set (stats_by_thread s). tk_pid k = 0 then ag_resolver s else r1"])
       (auto simp: mark_exited_threads_def refresh_if_needed_ok)
qed

lemma mark_in_sel [simp]:
  "tot d (mark_in r k st) = tot d st" "cur d (mark_in r k st) = cur d st"
  "hist d (mark_in r k st) = hist d st" "info_key (info (mark_in r k st)) = info_key (info st)"
  "last_seen (mark_in r k st) = last_seen st"
  by (simp_all add: mark_in_def)

lemma if_frame [simp]:
  "if_tot d (s\<lparr>stats_by_thread := m\<rparr>) = if_tot d s" "if_cur d (s\<lparr>stats_by_thread := m\<rparr>) = if_cur d s"
  "if_hist d (s\<lparr>stats_by_thread := m\<rparr>) = if_hist d s"
  "if_tot d (s\<lparr>ag_resolver := r\<rparr>) = if_tot d s" "if_cur d (s\<lparr>ag_resolver := r\<rparr>) = if_cur d s"
  "if_hist d (s\<lparr>ag_resolver := r\<rparr>) = if_hist d s"
  "if_tot d (s\<lparr>conn_stats := c\<rparr>) = if_tot d s" "if_cur d (s\<lparr>conn_stats := c\<rparr>) = if_cur d s"
  "if_hist d (s\<lparr>conn_stats := c\<rparr>) = if_hist d s"
  by (cases d; simp)+

lemma mark_exited_ok: "agg_ok s \<Longrightarrow> mark_exited_threads now w s = Some s' \<Longrightarrow> agg_ok s'"
  by (elim mark_exited_threads_cases)
     (auto simp: agg_ok_def hm_get_map thread_ok_def)

definition evict_prune :: "instant \<Rightarrow> agg_state \<Rightarrow> agg_state" where
  "evict_prune now s = prune_connection_stats now (evict_stale_threads now s)"

lemma evict_prune_ok: "agg_ok s \<Longrightarrow> agg_ok (evict_prune now s)"
  by (auto simp: agg_ok_def evict_prune_def prune_connection_stats_def evict_stale_threads_def
      hm_get_retain thread_of_def split: option.splits if_splits)

lemma rotate_second_sel:
  assumes "thread_ok k st"
  shows "tot d (rotate_second st) = tot d st" "cur d (rotate_second st) = 0"
    "hist d (rotate_second st) = cur d st # butlast (hist d st)" "info (rotate_second st) = info st"
    "last_seen (rotate_second st) = last_seen st"
proof -
  have "length (tx_history st) = HISTORY_SLOTS" "length (rx_history st) = HISTORY_SLOTS"
    using assms by (auto simp: thread_ok_def all_direction)
  then show "tot d (rotate_second st) = tot d st" "cur d (rotate_second st) = 0"
    "hist d (rotate_second st) = cur d st # butlast (hist d st)" "info (rotate_second st) = info st"
    "last_seen (rotate_second st) = last_seen st"
    by (cases d; simp add: rotate_second_def shift_history_push)+
qed

lemma rotate_due:
  "\<not> elapsed now (last_rotation s) < from_secs 1 \<Longrightarrow> fst (rotate_histories_if_due now s)"
  by (simp add: rotate_histories_if_due_def Let_def)

lemma rotate_not_due:
  "elapsed now (last_rotation s) < from_secs 1 \<Longrightarrow> rotate_histories_if_due now s = (False, s)"
  by (simp add: rotate_histories_if_due_def)

lemma rotate_sel:
  assumes "agg_ok s" and "rotate_histories_if_due now s = (True, s')"
  shows "stats_by_thread s' = hm_map (\<lambda>_. rotate_second) (stats_by_thread s)"
    "conn_stats s' = conn_stats s" "ag_resolver s' = ag_resolver s"
    "if_tot d s' = if_tot d s" "if_cur d s' = 0" "if_hist d s' = if_cur d s # butlast (if_hist d s)"
    "peak_bw s' = max (peak_bw s) (if_tx_current_second s + if_rx_current_second s)"
    "connection_cache s' = connection_cache s" "last_rotation s' = now"
    "history_csv s' = history_csv s" "session_history s' = session_history s"
proof -
  have h: "length (if_tx_history s) = HISTORY_SLOTS" "length (if_rx_history s) = HISTORY_SLOTS"
    using agg_okD(5) [OF assms(1), of Tx] agg_okD(5) [OF assms(1), of Rx] by simp_all
  have s': "s' = snd (rotate_histories_if_due now s)"
    and due: "\<not> elapsed now (last_rotation s) < from_secs 1"
    using assms(2) by (auto simp: rotate_not_due)
  note rot = s' rotate_histories_if_due_def due [simplified] rotate_interface_second_def Let_def
    shift_history_push [OF h(1)] shift_history_push [OF h(2)]
  show "stats_by_thread s' = hm_map (\<lambda>_. rotate_second) (stats_by_thread s)"
    "conn_stats s' = conn_stats s" "ag_resolver s' = ag_resolver s"
    "peak_bw s' = max (peak_bw s) (if_tx_current_second s + if_rx_current_second s)"
    "connection_cache s' = connection_cache s" "last_rotation s' = now"
    "history_csv s' = history_csv s" "session_history s' = session_history s"
    by (auto simp: rot max_def)
  show "if_tot d s' = if_tot d s" "if_cur d s' = 0" "if_hist d s' = if_cur d s # butlast (if_hist d s)"
    by (cases d; simp add: rot)+
qed

lemma rotate_ok: "agg_ok s \<Longrightarrow> agg_ok (snd (rotate_histories_if_due now s))"
proof (cases "rotate_histories_if_due now s")
  case (Pair rotated s')
  assume ok: "agg_ok s"
  show ?thesis
  proof (cases rotated)
    case True
    with Pair have p: "rotate_histories_if_due now s = (True, s')" by simp
    note sel = rotate_sel [OF ok p]
    have "thread_ok k (rotate_second st)" if "thread_ok k st" for k st
      using that rotate_second_sel [OF that] by (simp add: thread_ok_def HISTORY_SLOTS_def)
    with ok show ?thesis
      by (auto simp: p agg_ok_def sel hm_get_map HISTORY_SLOTS_def)
  next
    case False
    with Pair rotate_due [of now s] rotate_not_due [of now s] ok show ?thesis by fastforce
  qed
qed

text \<open>The remaining operations touch what the invariant does not mention.\<close>

lemma append_history_ok: "agg_ok (append_history_csv ts f s) = agg_ok s"
  by (simp add: append_history_csv_def agg_ok_def all_direction)

lemma publish_ok: "agg_ok (publish_snapshots s) = agg_ok s"
  by (simp add: publish_snapshots_def agg_ok_def all_direction Let_def)

lemma refresh_cache_cases:
  assumes "refresh_connection_cache_if_due now w s = Some s'"
  obtains r conns t where "s' = s\<lparr>ag_resolver := r, connection_cache := conns, last_proc_scan := t\<rparr>"
    and "cache_ok (ag_resolver s) \<longrightarrow> cache_ok r"
proof (cases "RESOLVER_SCAN_INTERVAL \<le> elapsed now (last_proc_scan s)")
  case True
  with assms obtain x r conns r' where r: "refresh_if_needed now w (ag_resolver s) = Some (x, r)"
    and l: "list_connections now w r = Some (conns, r')"
    and s': "s' = s\<lparr>ag_resolver := r', connection_cache := conns, last_proc_scan := now + int (w_scan_time w)\<rparr>"
    by (auto simp: refresh_connection_cache_if_due_def bind_eq_Some_conv)
  from s' show ?thesis
    by (rule that) (blast intro: list_connections_cache [OF l] refresh_if_needed_ok [OF _ r])
next
  case False
  with assms have "s' = s\<lparr>ag_resolver := ag_resolver s, connection_cache := connection_cache s,
      last_proc_scan := last_proc_scan s\<rparr>"
    by (simp add: refresh_connection_cache_if_due_def)
  then show ?thesis by (rule that) blast
qed

lemma refresh_cache_ok: "agg_ok s \<Longrightarrow> refresh_connection_cache_if_due now w s = Some s' \<Longrightarrow> agg_ok s'"
  by (elim refresh_cache_cases) (simp add: agg_ok_def all_direction)

section \<open>The accounts\<close>

text \<open>
  \<open>n d\<close> is the number of bytes received in direction \<open>d\<close>, as an unbounded number.
\<close>

definition accounts :: "(direction \<Rightarrow> nat) \<Rightarrow> agg_state \<Rightarrow> bool" where
  "accounts n s \<longleftrightarrow> (\<forall>d. unat (if_tot d s) = n d
     \<and> threads_sum d (stats_by_thread s) \<le> n d
     \<and> hsum (if_hist d s) + unat (if_cur d s) \<le> n d
     \<and> (\<forall>k st. hm_get (stats_by_thread s) k = Some st \<longrightarrow>
          conns_sum d k (conn_stats s) \<le> unat (tot d st)
          \<and> hsum (hist d st) + unat (cur d st) \<le> unat (tot d st)))"

lemma accountsD:
  assumes "accounts n s"
  shows "unat (if_tot d s) = n d" "threads_sum d (stats_by_thread s) \<le> n d"
    "hsum (if_hist d s) + unat (if_cur d s) \<le> n d"
    "hm_get (stats_by_thread s) k = Some st \<Longrightarrow> conns_sum d k (conn_stats s) \<le> unat (tot d st)"
    "hm_get (stats_by_thread s) k = Some st \<Longrightarrow> hsum (hist d st) + unat (cur d st) \<le> unat (tot d st)"
  using assms unfolding accounts_def by blast+

definition count_record :: "flow_record \<Rightarrow> (direction \<Rightarrow> nat) \<Rightarrow> direction \<Rightarrow> nat" where
  "count_record rec n d = (if d = fr_direction rec then n d + unat (byte_count rec) else n d)"

lemma unat_bytes_of [simp]: "unat (bytes_of rec) = unat (byte_count rec)"
proof -
  have "unat (byte_count rec) < 2 ^ 32" using unsigned_less [of "byte_count rec"] by simp
  then show ?thesis by (simp add: bytes_of_def unsigned_ucast_eq take_bit_nat_eq_self)
qed

lemma saturating_exact:
  "unat a + unat b < 2 ^ 64 \<Longrightarrow> unat (saturating_add a b) = unat a + unat b" for a b :: u64
  by (simp add: unat_saturating_add)

lemma entry_tot_le: "unat (tot d (thread_entry now i s)) \<le> threads_sum d (stats_by_thread s)"
  using hm_sum_mem [of "stats_by_thread s" "info_key i" _ "\<lambda>_ st. unat (tot d st)"]
  by (auto simp: thread_entry_def threads_sum_def split: option.split)

lemma conns_le_entry:
  assumes ok: "agg_ok s" and acc: "accounts n s"
    and room: "n (fr_direction rec) + unat (byte_count rec) < 2 ^ 64"
  shows "conns_sum d (info_key i) (conn_stats s) \<le> unat (tot d (thread_entry now i s))"
proof (cases "hm_get (stats_by_thread s) (info_key i)")
  case None
  have "thread_of ck \<noteq> info_key i" if "(ck, c) \<in> set (conn_stats s)" for ck c
    using agg_okD(6) [OF ok, of ck c] agg_okD(3) [OF ok] that None by (auto simp: hm_get_Some_iff)
  then have "conns_sum d (info_key i) (conn_stats s) = 0"
    unfolding conns_sum_def by (intro hm_sum_zero) auto
  then show ?thesis by simp
next
  case (Some st)
  then show ?thesis using accountsD(4) [OF acc Some] by (simp add: thread_entry_def)
qed

lemma entry_cur_le:
  assumes ok: "agg_ok s" and acc: "accounts n s"
    and room: "n (fr_direction rec) + unat (byte_count rec) < 2 ^ 64"
  shows "hsum (hist d (thread_entry now i s)) + unat (cur d (thread_entry now i s))
     \<le> unat (tot d (thread_entry now i s))"
  using accountsD(5) [OF acc, of "info_key i" _ d] by (auto simp: thread_entry_def split: option.split)

lemma added_tot:
  assumes ok: "agg_ok s" and acc: "accounts n s"
    and room: "n (fr_direction rec) + unat (byte_count rec) < 2 ^ 64"
  shows "unat (tot d (add_thread_bytes now i rec (thread_entry now i s)))
     = count_record rec (\<lambda>d. unat (tot d (thread_entry now i s))) d"
proof -
  have "unat (tot d (thread_entry now i s)) + unat (byte_count rec) < 2 ^ 64" if "d = fr_direction rec"
    using entry_tot_le [where d = d and now = now and i = i and s = s] accountsD(2) [OF acc, of d] room that by simp
  then show ?thesis by (simp add: add_thread_bytes_sel saturating_exact count_record_def)
qed

lemma added_cur:
  assumes ok: "agg_ok s" and acc: "accounts n s"
    and room: "n (fr_direction rec) + unat (byte_count rec) < 2 ^ 64"
  shows "unat (cur d (add_thread_bytes now i rec (thread_entry now i s)))
     = count_record rec (\<lambda>d. unat (cur d (thread_entry now i s))) d"
proof -
  have "unat (cur d (thread_entry now i s)) + unat (byte_count rec) < 2 ^ 64" if "d = fr_direction rec"
    using entry_tot_le [where d = d and now = now and i = i and s = s] entry_cur_le [OF ok acc room, where d = d and now = now and i = i] accountsD(2) [OF acc, of d] room that by simp
  then show ?thesis by (simp add: add_thread_bytes_sel saturating_exact count_record_def)
qed

lemma applied_threads_sum:
  assumes ok: "agg_ok s" and acc: "accounts n s"
    and room: "n (fr_direction rec) + unat (byte_count rec) < 2 ^ 64"
  shows "threads_sum d (stats_by_thread (apply_record now i rec s))
     = count_record rec (\<lambda>d. threads_sum d (stats_by_thread s)) d"
proof -
  let ?e = "thread_entry now i s"
  have "threads_sum d (hm_insert (info_key i) (add_thread_bytes now i rec ?e) (stats_by_thread s))
      + unat (tot d ?e) = threads_sum d (stats_by_thread s) + unat (tot d (add_thread_bytes now i rec ?e))"
    using hm_sum_insert [OF agg_okD(2) [OF ok], of "\<lambda>_ st. unat (tot d st)" "info_key i"]
    by (auto simp: threads_sum_def thread_entry_def split: option.splits)
  then show ?thesis by (simp add: apply_record_stats added_tot [OF ok acc room] count_record_def split: if_splits)
qed

lemma applied_conns_sum:
  assumes ok: "agg_ok s" and acc: "accounts n s"
    and room: "n (fr_direction rec) + unat (byte_count rec) < 2 ^ 64"
  shows "conns_sum d k (conn_stats (apply_record now i rec s))
     = (if k = info_key i then count_record rec (\<lambda>d. conns_sum d k (conn_stats s)) d
        else conns_sum d k (conn_stats s))"
proof -
  let ?ck = "connection_key_of rec i (fr_direction rec = Tx)"
  obtain c where c: "update_connection_stats now rec i (bytes_of rec) (fr_direction rec = Tx) (conn_stats s)
      = hm_insert ?ck c (conn_stats s)"
    and b: "\<forall>d. cbytes d c = (if d = fr_direction rec
       then saturating_add (cbytes d (conn_entry now ?ck (conn_stats s))) (bytes_of rec)
       else cbytes d (conn_entry now ?ck (conn_stats s)))"
    using update_connection_stats_insert by blast
  let ?f = "\<lambda>d ck c. if thread_of ck = info_key i then unat (cbytes d c) else 0"
  have zero: "cbytes d \<lparr>cs_tx_bytes = 0, cs_rx_bytes = 0, cs_last_seen = now\<rparr> = 0" for d
    by (cases d) simp_all
  have e: "unat (cbytes d (conn_entry now ?ck (conn_stats s))) \<le> conns_sum d (info_key i) (conn_stats s)" for d
    using hm_sum_mem [of "conn_stats s" ?ck _ "?f d"]
    by (auto simp: conn_entry_def conns_sum_def zero split: option.split)
  have "unat (cbytes d (conn_entry now ?ck (conn_stats s))) + unat (byte_count rec) < 2 ^ 64"
    if "d = fr_direction rec"
    using e [of d] conns_le_entry [OF ok acc room, where d = d and now = now and i = i] entry_tot_le [where d = d and now = now and i = i and s = s] accountsD(2) [OF acc, of d] room that by simp
  then have cb: "unat (cbytes d c) = count_record rec (\<lambda>d. unat (cbytes d (conn_entry now ?ck (conn_stats s)))) d"
    using b by (simp add: saturating_exact count_record_def)
  have "conns_sum d k (hm_insert ?ck c (conn_stats s))
      + (if k = info_key i then unat (cbytes d (conn_entry now ?ck (conn_stats s))) else 0)
      = conns_sum d k (conn_stats s) + (if k = info_key i then unat (cbytes d c) else 0)"
    using hm_sum_insert [OF agg_okD(3) [OF ok],
        of "\<lambda>ck c. if thread_of ck = k then unat (cbytes d c) else 0" ?ck c]
    by (auto simp: conns_sum_def conn_entry_def zero split: option.splits)
  then show ?thesis
    by (auto simp: apply_record_conns c cb count_record_def split: if_splits)
qed

lemma apply_record_accounts:
  assumes ok: "agg_ok s" and acc: "accounts n s"
    and room: "n (fr_direction rec) + unat (byte_count rec) < 2 ^ 64"
  shows "accounts (count_record rec n) (apply_record now i rec s)"
proof -
  have tot: "unat (if_tot d (apply_record now i rec s)) = count_record rec n d" for d
    using accountsD(1) [OF acc, of d] accountsD(1) [OF acc, of "fr_direction rec"] room
    by (simp add: apply_record_if saturating_exact count_record_def)
  have cur_room: "unat (if_cur d s) + unat (byte_count rec) < 2 ^ 64" if "d = fr_direction rec" for d
    using accountsD(3) [OF acc, of d] room that by simp
  have if_cur: "hsum (if_hist d (apply_record now i rec s)) + unat (if_cur d (apply_record now i rec s))
      \<le> count_record rec n d" for d
    using accountsD(3) [OF acc, of d] cur_room [of d]
    by (cases "d = fr_direction rec") (simp_all add: apply_record_if saturating_exact count_record_def)
  have sum: "threads_sum d (stats_by_thread (apply_record now i rec s)) \<le> count_record rec n d" for d
    using accountsD(2) [OF acc, of d] by (auto simp: applied_threads_sum [OF ok acc room] count_record_def)
  have thread: "conns_sum d k (conn_stats (apply_record now i rec s)) \<le> unat (tot d st)
      \<and> hsum (hist d st) + unat (cur d st) \<le> unat (tot d st)"
    if g: "hm_get (stats_by_thread (apply_record now i rec s)) k = Some st" for d k st
  proof (cases "k = info_key i")
    case True
    with g have st: "st = add_thread_bytes now i rec (thread_entry now i s)"
      by (simp add: apply_record_stats hm_simps)
    show ?thesis
      using conns_le_entry [OF ok acc room, where d = d and now = now and i = i] entry_cur_le [OF ok acc room, where d = d and now = now and i = i] True
      unfolding st added_tot [OF ok acc room] added_cur [OF ok acc room] by (auto simp: applied_conns_sum [OF ok acc room] add_thread_bytes_sel count_record_def)
  next
    case False
    with g have "hm_get (stats_by_thread s) k = Some st"
      by (simp add: apply_record_stats hm_simps)
    with False accountsD(4,5) [OF acc this, of d] show ?thesis by (simp add: applied_conns_sum [OF ok acc room])
  qed
  from tot sum if_cur thread show ?thesis unfolding accounts_def by blast
qed

definition received :: "flow_record list \<Rightarrow> direction \<Rightarrow> nat" where
  "received recs d = sum_list (map (\<lambda>r. if fr_direction r = d then unat (byte_count r) else 0) recs)"

lemma received_simps [simp]:
  "received [] d = 0"
  "received (r # rs) d = (if fr_direction r = d then unat (byte_count r) else 0) + received rs d"
  "received (xs @ ys) d = received xs d + received ys d"
  by (simp_all add: received_def)

definition records_of :: "(instant \<times> resolver_world \<times> flow_record) list \<Rightarrow> flow_record list" where
  "records_of rs = map (\<lambda>(now, w, rec). rec) rs"

lemma accounts_resolver [simp]: "accounts n (s\<lparr>ag_resolver := r\<rparr>) = accounts n s"
  by (simp add: accounts_def)

lemma drain_accounts:
  "agg_ok s \<Longrightarrow> accounts n s \<Longrightarrow> \<forall>d. n d + received (records_of rs) d < 2 ^ 64 \<Longrightarrow>
   drain_flow_channel rs s = Some s' \<Longrightarrow>
   accounts (\<lambda>d. n d + received (records_of rs) d) s'
   \<and> (\<forall>d. threads_sum d (stats_by_thread s') = threads_sum d (stats_by_thread s) + received (records_of rs) d)"
proof (induction rs arbitrary: s n)
  case (Cons x rs)
  obtain now w rec where x: "x = (now, w, rec)" by (cases x)
  with Cons.prems(4) obtain s1 where s1: "process_record now w rec s = Some s1"
    and rest: "drain_flow_channel rs s1 = Some s'"
    by (auto simp: bind_eq_Some_conv)
  obtain i r where s1': "s1 = apply_record now i rec (s\<lparr>ag_resolver := r\<rparr>)"
    and r: "cache_ok (ag_resolver s) \<longrightarrow> cache_ok r"
    using s1 by (rule process_record_cases)
  have ok: "agg_ok (s\<lparr>ag_resolver := r\<rparr>)"
    using Cons.prems(1) r by (auto intro: resolver_frame dest: agg_okD(1))
  have acc: "accounts n (s\<lparr>ag_resolver := r\<rparr>)" using Cons.prems(2) by simp
  have room: "n (fr_direction rec) + unat (byte_count rec) < 2 ^ 64"
    using Cons.prems(3) [rule_format, of "fr_direction rec"] by (simp add: x records_of_def)
  have cnt: "(\<lambda>d. count_record rec n d + received (records_of rs) d) = (\<lambda>d. n d + received (records_of (x # rs)) d)"
    by (auto simp: count_record_def records_of_def x)
  have acc1: "accounts (count_record rec n) s1"
    unfolding s1' using ok acc room by (rule apply_record_accounts)
  have sum1: "threads_sum d (stats_by_thread s1)
      = count_record rec (\<lambda>d. threads_sum d (stats_by_thread s)) d" for d
    unfolding s1' using applied_threads_sum [OF ok acc room] by simp
  have bound: "\<forall>d. count_record rec n d + received (records_of rs) d < 2 ^ 64"
    using Cons.prems(3) unfolding fun_cong [OF cnt] .
  from Cons.IH [OF process_record_ok [OF Cons.prems(1) s1] acc1 bound rest] show ?case
    unfolding cnt by (simp add: sum1 count_record_def records_of_def x)
qed (simp add: records_of_def)

lemma mark_exited_accounts:
  assumes "accounts n s" and "mark_exited_threads now w s = Some s'"
  shows "accounts n s'"
proof -
  obtain seen r where s': "s' = s\<lparr>stats_by_thread := hm_map (mark_in seen) (stats_by_thread s), ag_resolver := r\<rparr>"
    using assms(2) by (rule mark_exited_threads_cases)
  have sum: "threads_sum d (hm_map (mark_in seen) (stats_by_thread s)) = threads_sum d (stats_by_thread s)" for d
    unfolding threads_sum_def by (rule hm_sum_map) simp
  from assms(1) show ?thesis
    unfolding s' accounts_def by (auto simp: sum hm_get_map)
qed

lemma conns_sum_retain: "conns_sum d k (hm_retain P m) \<le> conns_sum d k m"
  unfolding conns_sum_def by (rule hm_sum_retain)

lemma evict_prune_accounts:
  assumes "agg_ok s" and "accounts n s"
  shows "accounts n (evict_prune now s)"
proof -
  let ?s = "evict_prune now s"
  have "threads_sum d (stats_by_thread ?s) \<le> n d" for d
    using accountsD(2) [OF assms(2), of d]
    by (simp add: threads_sum_def evict_prune_def prune_connection_stats_def evict_stale_threads_def
        order.trans [OF hm_sum_retain])
  moreover have "hm_get (stats_by_thread s) k = Some st" if "hm_get (stats_by_thread ?s) k = Some st" for k st
    using that agg_okD(2) [OF assms(1)]
    by (simp add: evict_prune_def prune_connection_stats_def evict_stale_threads_def hm_get_retain
        split: option.splits if_splits)
  moreover have "conns_sum d k (conn_stats ?s) \<le> conns_sum d k (conn_stats s)" for d k
    using conns_sum_retain
    by (simp add: evict_prune_def prune_connection_stats_def evict_stale_threads_def)
  moreover have "if_tot d ?s = if_tot d s" "if_hist d ?s = if_hist d s" "if_cur d ?s = if_cur d s" for d
    by (simp_all add: evict_prune_def prune_connection_stats_def evict_stale_threads_def)
  ultimately show ?thesis
    using assms(2) unfolding accounts_def by (metis (no_types) le_trans)
qed

lemma rotate_accounts:
  assumes ok: "agg_ok s" and acc: "accounts n s"
  shows "accounts n (snd (rotate_histories_if_due now s))"
proof (cases "rotate_histories_if_due now s")
  case (Pair rotated s')
  show ?thesis
  proof (cases rotated)
    case False
    with Pair rotate_due [of now s] rotate_not_due [of now s] acc show ?thesis by fastforce
  next
    case True
    with Pair have p: "rotate_histories_if_due now s = (True, s')" by simp
    note sel = rotate_sel [OF ok p]
    have tok: "thread_ok k st" if "hm_get (stats_by_thread s) k = Some st" for k st
      using agg_okD(4) [OF ok that] .
    have "threads_sum d (stats_by_thread s') = threads_sum d (stats_by_thread s)" for d
      unfolding threads_sum_def sel
    proof (rule hm_sum_map, clarify)
      fix k st assume "(k, st) \<in> set (stats_by_thread s)"
      then have "thread_ok k st" using tok agg_okD(2) [OF ok] by (simp add: hm_get_Some_iff)
      then show "unat (tot d (rotate_second st)) = unat (tot d st)" by (simp add: rotate_second_sel)
    qed
    moreover have "conns_sum d k (conn_stats s') \<le> unat (tot d st')
        \<and> hsum (hist d st') + unat (cur d st') \<le> unat (tot d st')"
      if g: "hm_get (stats_by_thread s') k = Some st'" for k st' d
    proof -
      from g obtain st where st: "hm_get (stats_by_thread s) k = Some st" "st' = rotate_second st"
        by (auto simp: sel hm_get_map)
      with accountsD(4,5) [OF acc st(1), of d] hsum_butlast [of "hist d st"]
        rotate_second_sel [OF tok [OF st(1)]] show ?thesis
        by (simp add: sel)
    qed
    moreover have "hsum (butlast (if_hist d s)) + unat (if_cur d s) \<le> n d" for d
      using accountsD(3) [OF acc, of d] hsum_butlast [of "if_hist d s"] by linarith
    ultimately show ?thesis
      using accountsD(1,2) [OF acc] unfolding accounts_def p
      by (simp add: sel(4-6) add.commute)
  qed
qed

lemma append_history_accounts: "accounts n (append_history_csv ts f s) = accounts n s"
  by (simp add: append_history_csv_def accounts_def all_direction)

lemma publish_accounts: "accounts n (publish_snapshots s) = accounts n s"
  by (simp add: publish_snapshots_def accounts_def all_direction Let_def)

lemma refresh_cache_accounts:
  "accounts n s \<Longrightarrow> refresh_connection_cache_if_due now w s = Some s' \<Longrightarrow> accounts n s'"
  by (elim refresh_cache_cases) (simp add: accounts_def all_direction)

section \<open>One iteration and the loop\<close>

definition after_rotation :: "tick \<Rightarrow> bool \<times> agg_state \<Rightarrow> agg_state" where
  "after_rotation t p = (case p of (rotated, s) \<Rightarrow> publish_snapshots
     (if rotated then (case history_csv s of
        Some csv_file \<Rightarrow> append_history_csv (t_unix t) csv_file s | None \<Rightarrow> s) else s))"

lemma after_rotation_keeps:
  "agg_ok (after_rotation t p) = agg_ok (snd p)" "accounts n (after_rotation t p) = accounts n (snd p)"
  by (simp_all add: after_rotation_def publish_ok publish_accounts append_history_ok
      append_history_accounts split: prod.split option.split)

lemma agg_iteration_eq:
  "agg_iteration t s = do {
     s1 \<leftarrow> refresh_connection_cache_if_due (t_now t) (t_world t) s;
     s2 \<leftarrow> drain_flow_channel (t_records t) s1;
     s3 \<leftarrow> mark_exited_threads (t_after t) (t_world t) s2;
     Some (after_rotation t (rotate_histories_if_due (t_after t) (evict_prune (t_after t) s3)))
   }"
  by (simp add: agg_iteration_def evict_prune_def after_rotation_def Let_def split_beta cong: option.case_cong)

lemma agg_iteration_steps:
  assumes "agg_iteration t s = Some s'"
  obtains s1 s2 s3 where "refresh_connection_cache_if_due (t_now t) (t_world t) s = Some s1"
    and "drain_flow_channel (t_records t) s1 = Some s2"
    and "mark_exited_threads (t_after t) (t_world t) s2 = Some s3"
    and "s' = after_rotation t (rotate_histories_if_due (t_after t) (evict_prune (t_after t) s3))"
  using assms by (auto simp: agg_iteration_eq bind_eq_Some_conv)

lemma agg_iteration_ok: "agg_ok s \<Longrightarrow> agg_iteration t s = Some s' \<Longrightarrow> agg_ok s'"
  by (elim agg_iteration_steps)
     (simp add: after_rotation_keeps, rule rotate_ok, rule evict_prune_ok,
      blast intro: refresh_cache_ok drain_ok mark_exited_ok)

lemma agg_iteration_accounts:
  assumes "agg_ok s" and "accounts n s" and "\<forall>d. n d + received (records_of (t_records t)) d < 2 ^ 64"
    and "agg_iteration t s = Some s'"
  shows "accounts (\<lambda>d. n d + received (records_of (t_records t)) d) s'"
proof -
  obtain s1 s2 s3 where st: "refresh_connection_cache_if_due (t_now t) (t_world t) s = Some s1"
    "drain_flow_channel (t_records t) s1 = Some s2"
    "mark_exited_threads (t_after t) (t_world t) s2 = Some s3"
    and s': "s' = after_rotation t (rotate_histories_if_due (t_after t) (evict_prune (t_after t) s3))"
    using assms(4) by (rule agg_iteration_steps)
  have ok1: "agg_ok s1" and acc1: "accounts n s1"
    using assms(1,2) st(1) by (auto intro: refresh_cache_ok refresh_cache_accounts)
  have ok2: "agg_ok s2" using ok1 st(2) by (rule drain_ok)
  have "accounts (\<lambda>d. n d + received (records_of (t_records t)) d) s2"
    using drain_accounts [OF ok1 acc1 assms(3) st(2)] by blast
  with ok2 st(3) show ?thesis
    unfolding s' after_rotation_keeps
    by (intro rotate_accounts evict_prune_accounts evict_prune_ok)
       (auto intro: mark_exited_ok mark_exited_accounts)
qed

definition all_records :: "tick list \<Rightarrow> flow_record list" where
  "all_records ts = concat (map (\<lambda>t. records_of (t_records t)) ts)"

lemma run_agg_invariants:
  "agg_ok s \<Longrightarrow> accounts n s \<Longrightarrow> \<forall>d. n d + received (all_records ts) d < 2 ^ 64 \<Longrightarrow>
   run_agg_iterations ts s = Some s' \<Longrightarrow>
   agg_ok s' \<and> accounts (\<lambda>d. n d + received (all_records ts) d) s'"
proof (induction ts arbitrary: s n)
  case (Cons t ts)
  then obtain s1 where s1: "agg_iteration t s = Some s1" and rest: "run_agg_iterations ts s1 = Some s'"
    by (auto simp: bind_eq_Some_conv)
  have sum: "(\<lambda>d. n d + received (records_of (t_records t)) d + received (all_records ts) d)
      = (\<lambda>d. n d + received (all_records (t # ts)) d)"
    by (simp add: all_records_def add.assoc)
  have b': "\<forall>d. n d + received (records_of (t_records t)) d + received (all_records ts) d < 2 ^ 64"
    using Cons.prems(3) by (simp add: all_records_def add.assoc)
  then have b: "\<forall>d. n d + received (records_of (t_records t)) d < 2 ^ 64"
    by (blast intro: add_lessD1)
  from Cons.IH [OF agg_iteration_ok [OF Cons.prems(1) s1]
      agg_iteration_accounts [OF Cons.prems(1,2) b s1] b' rest]
  show ?case unfolding sum .
qed (simp add: all_records_def)

lemma agg_init_ok: "cache_ok r \<Longrightarrow> agg_ok (agg_init now r csv sh) \<and> accounts (\<lambda>_. 0) (agg_init now r csv sh)"
  by (simp add: agg_ok_def accounts_def agg_init_def all_direction threads_sum_def)

section \<open>The loop goes on\<close>

text \<open>A world in which the netlink dump returns, be it with an error.\<close>

definition answers :: "resolver_world \<Rightarrow> bool" where
  "answers w \<longleftrightarrow> query_sockets (w_netlink w) \<noteq> None"

lemma refresh_returns:
  assumes "answers w"
  shows "\<exists>r c'. refresh_if_needed now w c = Some (r, c')"
proof -
  obtain r where "read_proc_net (w_read_to_string w) = Some r"
    using read_proc_files_ok [of proc_net_files "[]"]
    by (fastforce simp: read_proc_net_def proc_net_files_def)
  with assms show ?thesis
    by (auto simp: refresh_if_needed_def refresh_cases answers_def split: option.split sum.split)
qed

lemma process_record_returns: "answers w \<Longrightarrow> \<exists>s'. process_record now w rec s = Some s'"
  using refresh_returns [of w now "ag_resolver s"]
  by (auto simp: process_record_def resolve_flow_owner_def)

lemma drain_returns: "\<forall>(now, w, rec) \<in> set rs. answers w \<Longrightarrow> \<exists>s'. drain_flow_channel rs s = Some s'"
proof (induction rs arbitrary: s)
  case (Cons x rs)
  obtain now w rec where x: "x = (now, w, rec)" by (cases x)
  with Cons.prems obtain s1 where "process_record now w rec s = Some s1"
    using process_record_returns by fastforce
  with Cons x show ?case by simp
qed simp

definition tick_answers :: "tick \<Rightarrow> bool" where
  "tick_answers t \<longleftrightarrow> answers (t_world t) \<and> (\<forall>(now, w, rec) \<in> set (t_records t). answers w)"

lemma agg_iteration_returns:
  assumes "tick_answers t"
  shows "\<exists>s'. agg_iteration t s = Some s'"
proof -
  have a: "answers (t_world t)" using assms by (simp add: tick_answers_def)
  obtain s1 where s1: "refresh_connection_cache_if_due (t_now t) (t_world t) s = Some s1"
  proof -
    obtain x r where "refresh_if_needed (t_now t) (t_world t) (ag_resolver s) = Some (x, r)"
      using refresh_returns [OF a] by blast
    moreover obtain y r' where "refresh_if_needed (t_now t) (t_world t) r = Some (y, r')"
      using refresh_returns [OF a] by blast
    ultimately show ?thesis
      using that by (cases "RESOLVER_SCAN_INTERVAL \<le> elapsed (t_now t) (last_proc_scan s)")
        (simp_all add: refresh_connection_cache_if_due_def list_connections_def)
  qed
  obtain s2 where s2: "drain_flow_channel (t_records t) s1 = Some s2"
    using drain_returns assms by (fastforce simp: tick_answers_def)
  obtain x r1 where "refresh_if_needed (t_after t) (t_world t) (ag_resolver s2) = Some (x, r1)"
    using refresh_returns [OF a] by blast
  from mark_exited_loop_map [OF this, of "stats_by_thread s2"]
  obtain s3 where s3: "mark_exited_threads (t_after t) (t_world t) s2 = Some s3"
    by (simp add: mark_exited_threads_def)
  show ?thesis by (simp add: agg_iteration_def s1 s2 s3 split: prod.split)
qed

lemma run_agg_returns: "\<forall>t \<in> set ts. tick_answers t \<Longrightarrow> \<exists>s'. run_agg_iterations ts s = Some s'"
proof (induction ts arbitrary: s)
  case (Cons t ts)
  then obtain s1 where "agg_iteration t s = Some s1" using agg_iteration_returns by (metis list.set_intros(1))
  with Cons show ?case by simp
qed simp

text \<open>C35. The aggregator never stalls or panics: whatever it receives and however often it
  rotates, evicts and publishes, its loop completes every iteration in which the netlink
  dumps return (with sockets or with an error).\<close>

theorem aggregator_loop_returns:
  assumes "\<forall>t \<in> set ticks. tick_answers t"
  shows "\<exists>r. run_aggregator_loop describe now w csv ticks sh = Some r"
  using run_agg_returns [OF assms] by (auto simp: run_aggregator_loop_def split: sum.split)

definition quiet_world :: resolver_world where
  "quiet_world = dead_world\<lparr>w_passwd := Inr []\<rparr>"

definition quiet_tick :: tick where
  "quiet_tick = \<lparr>t_now = 10, t_world = quiet_world, t_records = [(20, quiet_world,
     \<lparr>fr_key = ssh_flow, byte_count = 60, timestamp = 5, fr_direction = Rx\<rparr>)],
     t_after = 30, t_unix = 0\<rparr>"

definition fresh_shared :: agg_shared where
  "fresh_shared = \<lparr>sh_rows = Unpoisoned [], sh_interface = Unpoisoned interface_stats_default,
     sh_status = Unpoisoned '''', sh_blocked = Unpoisoned {}, sh_history = Unpoisoned []\<rparr>"

lemma quiet_tick_answers: "tick_answers quiet_tick"
  by (simp add: tick_answers_def quiet_tick_def answers_def quiet_world_def dead_world_def
      query_sockets_def)

lemma quiet_run:
  "\<exists>s. run_aggregator_loop (\<lambda>_. '''') 0 quiet_world None [quiet_tick, quiet_tick] fresh_shared = Some (Inr s)"
proof -
  have t: "\<forall>t \<in> set [quiet_tick, quiet_tick]. tick_answers t" by (simp add: quiet_tick_answers)
  show ?thesis
    unfolding run_aggregator_loop_def
    using run_agg_returns [OF t, of "agg_init 0 _ None fresh_shared"]
    by (simp add: resolver_new_def load_uid_map_def quiet_world_def dead_world_def del: run_agg_iterations.simps)
qed

theorem aggregator_loop_returns_witness:
  "\<exists>r. run_aggregator_loop (\<lambda>_. '''') 0 quiet_world None [quiet_tick, quiet_tick] fresh_shared = Some r"
  by (rule aggregator_loop_returns) (simp add: quiet_tick_answers)

text \<open>C6. The books of the aggregator balance. After any number of iterations, and as long as
  fewer than \<open>2 ^ 64\<close> bytes came in each direction, the interface total of a direction is
  exactly the bytes of the records received; the totals of the tracked threads sum to no
  more than that; the connections of a thread sum to no more than the thread; and what the
  histories and the running second hold never exceeds the total they belong to.\<close>

theorem aggregator_accounts_balance:
  assumes "run_aggregator_loop describe now w csv ticks sh = Some (Inr s)"
    and "\<forall>d. received (all_records ticks) d < 2 ^ 64"
  shows "unat (if_tot d s) = received (all_records ticks) d
    \<and> threads_sum d (stats_by_thread s) \<le> unat (if_tot d s)
    \<and> hsum (if_hist d s) + unat (if_cur d s) \<le> unat (if_tot d s)
    \<and> (\<forall>k st. hm_get (stats_by_thread s) k = Some st \<longrightarrow>
         conns_sum d k (conn_stats s) \<le> unat (tot d st)
         \<and> hsum (hist d st) + unat (cur d st) \<le> unat (tot d st))"
proof -
  obtain r where r: "resolver_new now w = Inr r"
    and run: "run_agg_iterations ticks (agg_init now r csv sh) = Some s"
    using assms(1) by (auto simp: run_aggregator_loop_def split: sum.splits)
  have "accounts (received (all_records ticks)) s"
    using run_agg_invariants [of "agg_init now r csv sh" "\<lambda>_. 0", OF _ _ _ run] assms(2)
      agg_init_ok [OF resolver_new_ok [OF r]] by simp
  then show ?thesis unfolding accounts_def by metis
qed

theorem aggregator_accounts_balance_witness:
  "\<exists>s. run_aggregator_loop (\<lambda>_. '''') 0 quiet_world None [quiet_tick, quiet_tick] fresh_shared = Some (Inr s)
    \<and> unat (if_tot Rx s) = received (all_records [quiet_tick, quiet_tick]) Rx
    \<and> threads_sum Rx (stats_by_thread s) \<le> unat (if_tot Rx s)
    \<and> hsum (if_hist Rx s) + unat (if_cur Rx s) \<le> unat (if_tot Rx s)
    \<and> (\<forall>k st. hm_get (stats_by_thread s) k = Some st \<longrightarrow>
         conns_sum Rx k (conn_stats s) \<le> unat (tot Rx st)
         \<and> hsum (hist Rx st) + unat (cur Rx st) \<le> unat (tot Rx st))"
proof -
  obtain s where s: "run_aggregator_loop (\<lambda>_. '''') 0 quiet_world None [quiet_tick, quiet_tick] fresh_shared
      = Some (Inr s)" using quiet_run by blast
  have "\<forall>d. received (all_records [quiet_tick, quiet_tick]) d < 2 ^ 64"
    by (simp add: all_records_def records_of_def quiet_tick_def)
  from aggregator_accounts_balance [OF s this, of Rx] s show ?thesis by blast
qed

end
