(* ===== verification/Aggregator_Views.thy ===== *)
theory Aggregator_Views
  imports Aggregator_Inv
begin

text \<open>
  What the aggregator shows: the second-by-second histories and their averages, the rate
  gates of its periodic work, what eviction leaves, the marking of exited threads, the
  published rows, and the lines of the history file.
\<close>

section \<open>Rates\<close>

text \<open>The two gated operations as steps.\<close>

definition scan_step :: "resolver_world \<Rightarrow> instant \<Rightarrow> agg_state \<Rightarrow> bool \<times> agg_state" where
  "scan_step w now s =
     (case refresh_connection_cache_if_due now w s of
        Some s' \<Rightarrow> (RESOLVER_SCAN_INTERVAL \<le> elapsed now (last_proc_scan s), s')
      | None \<Rightarrow> (False, s))"

definition rotate_step :: "unit \<Rightarrow> instant \<Rightarrow> agg_state \<Rightarrow> bool \<times> agg_state" where
  "rotate_step u now s = rotate_histories_if_due now s"

interpretation scan_gate: rate_gate scan_step last_proc_scan RESOLVER_SCAN_INTERVAL
  by unfold_locales
    (auto simp: scan_step_def refresh_connection_cache_if_due_def RESOLVER_SCAN_INTERVAL_def
      from_millis_def bind_eq_Some_conv split: option.splits if_splits)

lemma rotate_last: "last_rotation (snd (rotate_histories_if_due now s))
    = (if fst (rotate_histories_if_due now s) then now else last_rotation s)"
  by (simp add: rotate_histories_if_due_def Let_def)

interpretation rotation_gate: rate_gate rotate_step last_rotation "from_secs 1"
  by unfold_locales (auto simp: rotate_step_def rotate_not_due rotate_last from_secs_def)

text \<open>However fast the loop spins, the connection table is read from the resolver at most
  every 800 milliseconds, and the histories rotate (and the history file grows) at most
  once a second.\<close>

theorem aggregator_rates:
  "spaced 800000000 (gate_fires scan_step scans s) \<and> spaced 1000000000 (gate_fires rotate_step turns s)"
  using scan_gate.fires_spaced [of scans s] rotation_gate.fires_spaced [of turns s]
  by (simp add: RESOLVER_SCAN_INTERVAL_def from_millis_def from_secs_def)

text \<open>A rotation that is due pushes the bytes of the finished second to the front of every
  history, thread by thread and for the interface, drops the oldest sample, starts the next
  second at zero, leaves the totals alone, and raises the peak to the bandwidth of that
  second if it was higher.\<close>

theorem rotation_shifts_histories:
  assumes "agg_ok s" and "from_secs 1 \<le> elapsed now (last_rotation s)"
  shows "\<exists>s'. rotate_histories_if_due now s = (True, s') \<and> agg_ok s'
    \<and> (\<forall>d. if_hist d s' = if_cur d s # butlast (if_hist d s) \<and> if_cur d s' = 0 \<and> if_tot d s' = if_tot d s)
    \<and> peak_bw s' = max (peak_bw s) (if_cur Tx s + if_cur Rx s)
    \<and> (\<forall>k st. hm_get (stats_by_thread s) k = Some st \<longrightarrow>
         (\<exists>st'. hm_get (stats_by_thread s') k = Some st' \<and>
           (\<forall>d. hist d st' = cur d st # butlast (hist d st) \<and> cur d st' = 0 \<and> tot d st' = tot d st)))"
proof -
  obtain s' where p: "rotate_histories_if_due now s = (True, s')"
    using rotate_due [of now s] assms(2) by (cases "rotate_histories_if_due now s") auto
  note sel = rotate_sel [OF assms(1) p]
  have "agg_ok s'" using rotate_ok [OF assms(1), of now] p by simp
  moreover have "\<exists>st'. hm_get (stats_by_thread s') k = Some st' \<and>
      (\<forall>d. hist d st' = cur d st # butlast (hist d st) \<and> cur d st' = 0 \<and> tot d st' = tot d st)"
    if "hm_get (stats_by_thread s) k = Some st" for k st
    using that rotate_second_sel [OF agg_okD(4) [OF assms(1) that]] by (simp add: sel hm_get_map)
  ultimately show ?thesis using p by (simp add: sel)
qed

text \<open>A state with one thread that sent a packet.\<close>

definition busy_state :: agg_state where
  "busy_state = apply_record 7 ssh_info
     \<lparr>fr_key = swap_flow ssh_flow, byte_count = 60, timestamp = 5, fr_direction = Tx\<rparr>
     (agg_init 0 ssh_cache None fresh_shared)"

lemma busy_ok: "agg_ok busy_state"
  unfolding busy_state_def by (intro apply_record_ok) (simp add: agg_init_ok ssh_cache_ok)

theorem rotation_shifts_histories_witness:
  "\<exists>s'. rotate_histories_if_due 2000000000 busy_state = (True, s') \<and> agg_ok s'
    \<and> (\<forall>d. if_hist d s' = if_cur d busy_state # butlast (if_hist d busy_state) \<and> if_cur d s' = 0
         \<and> if_tot d s' = if_tot d busy_state)
    \<and> peak_bw s' = max (peak_bw busy_state) (if_cur Tx busy_state + if_cur Rx busy_state)
    \<and> (\<forall>k st. hm_get (stats_by_thread busy_state) k = Some st \<longrightarrow>
         (\<exists>st'. hm_get (stats_by_thread s') k = Some st' \<and>
           (\<forall>d. hist d st' = cur d st # butlast (hist d st) \<and> cur d st' = 0 \<and> tot d st' = tot d st)))"
  by (rule rotation_shifts_histories [OF busy_ok])
     (simp add: busy_state_def apply_record_frame agg_init_def elapsed_def from_secs_def)

text \<open>The averages shown and exported, when the sum fits.\<close>

lemma unat_sum_list:
  "sum_list (map unat h) < 2 ^ 64 \<Longrightarrow> unat (sum_list h) = sum_list (map unat h)" for h :: "u64 list"
proof (induction h)
  case (Cons a h)
  then have "unat (a + sum_list h) = unat a + unat (sum_list h)"
    by (intro unat_add_lem [THEN iffD1]) simp
  with Cons show ?case by simp
qed simp

text \<open>The two averages are the mean of the last two and of the last ten full seconds,
  rounded down, as long as the sum of those seconds is below \<open>2 ^ 64\<close> (the release build
  wraps around beyond that).\<close>

theorem averages_are_means:
  assumes "length h = HISTORY_SLOTS" and "hsum (take 10 h) < 2 ^ 64"
  shows "unat (two_second_avg h) = hsum (take 2 h) div 2 \<and> unat (ten_second_avg h) = hsum (take 10 h) div 10"
proof -
  obtain a b t where h: "h = a # b # t"
    using assms(1) by (cases h; cases "tl h") (auto simp: HISTORY_SLOTS_def)
  have "unat a + unat b < 2 ^ 64" using assms(2) by (simp add: h)
  then have "unat (a + b) = unat a + unat b" by (intro unat_add_lem [THEN iffD1]) simp
  then have "unat (two_second_avg h) = hsum (take 2 h) div 2"
    by (simp add: h two_second_avg_def unat_div hsum_def)
  moreover have "unat (sum_list (take 10 h)) = hsum (take 10 h)"
    using unat_sum_list [of "take 10 h"] assms(2) by (simp add: hsum_def)
  then have "unat (ten_second_avg h) = hsum (take 10 h) div 10"
    by (simp add: ten_second_avg_def unat_div)
  ultimately show ?thesis ..
qed

theorem averages_are_means_witness:
  "unat (two_second_avg zero_history) = hsum (take 2 zero_history) div 2
    \<and> unat (ten_second_avg zero_history) = hsum (take 10 zero_history) div 10"
proof (rule averages_are_means)
  have "hsum (take 10 zero_history) \<le> hsum (take 10 zero_history @ drop 10 zero_history)"
    unfolding hsum_def map_append sum_list_append by simp
  then show "hsum (take 10 zero_history) < 2 ^ 64" by simp
qed simp

section \<open>Eviction\<close>

text \<open>After eviction and pruning, every tracked thread and every counted connection was
  seen in the last 30 seconds, no connection is left of a thread that is gone, nothing that
  was seen in time is lost with its thread, and what stays is unchanged.\<close>

theorem eviction_keeps_the_recent:
  assumes "agg_ok s"
  shows "(hm_get (stats_by_thread (prune_connection_stats now (evict_stale_threads now s))) k = Some st
      \<longleftrightarrow> hm_get (stats_by_thread s) k = Some st \<and> elapsed now (last_seen st) \<le> from_secs 30)
    \<and> (hm_get (conn_stats (prune_connection_stats now (evict_stale_threads now s))) ck = Some c
      \<longleftrightarrow> hm_get (conn_stats s) ck = Some c \<and> elapsed now (cs_last_seen c) \<le> from_secs 30
        \<and> (\<exists>st. hm_get (stats_by_thread s) (thread_of ck) = Some st \<and> elapsed now (last_seen st) \<le> from_secs 30))"
  using agg_okD(2,3) [OF assms]
  by (auto simp: prune_connection_stats_def evict_stale_threads_def hm_get_retain
      PROCESS_EVICTION_TIMEOUT_def thread_of_def split: option.splits if_splits)

theorem eviction_keeps_the_recent_witness:
  "(hm_get (stats_by_thread (prune_connection_stats 9 (evict_stale_threads 9 busy_state))) (ThreadKey 42 42)
        = Some (thread_stats_new 7 ssh_info)
      \<longleftrightarrow> hm_get (stats_by_thread busy_state) (ThreadKey 42 42) = Some (thread_stats_new 7 ssh_info)
        \<and> elapsed 9 (last_seen (thread_stats_new 7 ssh_info)) \<le> from_secs 30)
    \<and> (hm_get (conn_stats (prune_connection_stats 9 (evict_stale_threads 9 busy_state)))
          \<lparr>ck_pid = 42, ck_tid = 42, ck_local_addr = (V4 10 0 2 15, 40000),
           ck_remote_addr = (V4 1 1 1 1, 22), ck_protocol = Tcp\<rparr>
        = Some \<lparr>cs_tx_bytes = 60, cs_rx_bytes = 0, cs_last_seen = 7\<rparr>
      \<longleftrightarrow> hm_get (conn_stats busy_state)
          \<lparr>ck_pid = 42, ck_tid = 42, ck_local_addr = (V4 10 0 2 15, 40000),
           ck_remote_addr = (V4 1 1 1 1, 22), ck_protocol = Tcp\<rparr>
        = Some \<lparr>cs_tx_bytes = 60, cs_rx_bytes = 0, cs_last_seen = 7\<rparr>
        \<and> elapsed 9 (cs_last_seen \<lparr>cs_tx_bytes = 60, cs_rx_bytes = 0, cs_last_seen = 7\<rparr>) \<le> from_secs 30
        \<and> (\<exists>st. hm_get (stats_by_thread busy_state) (thread_of
            \<lparr>ck_pid = 42, ck_tid = 42, ck_local_addr = (V4 10 0 2 15, 40000),
             ck_remote_addr = (V4 1 1 1 1, 22), ck_protocol = Tcp\<rparr>) = Some st
          \<and> elapsed 9 (last_seen st) \<le> from_secs 30))"
  by (rule eviction_keeps_the_recent [OF busy_ok])

section \<open>Exited threads\<close>

text \<open>C37. Marking adds the suffix to the name of every thread of a process (PID zero apart)
  for which the resolver knows no socket, once however often it runs, and changes nothing
  else. A process that is alive and has merely closed its sockets is marked too.\<close>

theorem marking_exited_threads:
  assumes "refresh_if_needed now w (ag_resolver s) = Some (r, c)"
    and "hm_get (stats_by_thread s) k = Some st"
  shows "\<exists>s' st'. mark_exited_threads now w s = Some s' \<and> hm_get (stats_by_thread s') k = Some st'
    \<and> st' = st\<lparr>info := info st'\<rparr> \<and> info st' = (info st)\<lparr>pi_name := pi_name (info st')\<rparr>
    \<and> pi_name (info st') =
        (if tk_pid k \<noteq> 0 \<and> (\<forall>i \<in> set (hm_values (inode_to_process c)). pi_pid i \<noteq> tk_pid k)
           \<and> \<not> ends_with '' [exited]'' (pi_name (info st))
         then pi_name (info st) @ '' [exited]'' else pi_name (info st))"
proof -
  obtain s' where s': "mark_exited_threads now w s = Some s'"
    and m: "stats_by_thread s' = hm_map (mark_in c) (stats_by_thread s)"
    using mark_exited_loop_map [OF assms(1), of "stats_by_thread s"]
    by (auto simp: mark_exited_threads_def)
  have "hm_get (stats_by_thread s') k = Some (mark_in c k st)"
    using assms(2) by (simp add: m hm_get_map)
  with s' show ?thesis
    by (intro exI [of _ s'] exI [of _ "mark_in c k st"])
       (auto simp: mark_in_def mark_exited_def found_in_def find_None_iff exited_suffix_def)
qed

definition ssh_only_elsewhere :: resolver_cache where
  "ssh_only_elsewhere = ssh_cache\<lparr>inode_to_process := [(8, ssh_info\<lparr>pi_pid := 99\<rparr>)]\<rparr>"

theorem marking_exited_threads_witness:
  "\<exists>s' st'. mark_exited_threads 0 dead_world (busy_state\<lparr>ag_resolver := ssh_only_elsewhere\<rparr>) = Some s'
    \<and> hm_get (stats_by_thread s') (ThreadKey 42 42) = Some st'
    \<and> st' = (thread_entry 7 ssh_info busy_state)\<lparr>info := info st'\<rparr>
    \<and> info st' = (info (thread_entry 7 ssh_info busy_state))\<lparr>pi_name := pi_name (info st')\<rparr>
    \<and> pi_name (info st') =
        (if tk_pid (ThreadKey 42 42) \<noteq> 0 \<and> (\<forall>i \<in> set (hm_values (inode_to_process ssh_only_elsewhere)).
             pi_pid i \<noteq> tk_pid (ThreadKey 42 42))
           \<and> \<not> ends_with '' [exited]'' (pi_name (info (thread_entry 7 ssh_info busy_state)))
         then pi_name (info (thread_entry 7 ssh_info busy_state)) @ '' [exited]''
         else pi_name (info (thread_entry 7 ssh_info busy_state)))"
proof (rule marking_exited_threads)
  show "refresh_if_needed 0 dead_world (ag_resolver (busy_state\<lparr>ag_resolver := ssh_only_elsewhere\<rparr>))
      = Some (Inr (), ssh_only_elsewhere)"
    by (simp add: refresh_if_needed_def ssh_only_elsewhere_def ssh_cache_def elapsed_def
        RESOLVER_REFRESH_PERIOD_def from_secs_def)
  show "hm_get (stats_by_thread (busy_state\<lparr>ag_resolver := ssh_only_elsewhere\<rparr>)) (ThreadKey 42 42)
      = Some (thread_entry 7 ssh_info busy_state)"
    by (simp add: busy_state_def apply_record_stats agg_init_def thread_entry_def info_key_def
        ssh_info_def hm_simps)
qed

section \<open>Published rows\<close>

lemma sort_key_unique:
  assumes "mset xs = mset ys" and "distinct (map f xs)"
  shows "sort_key f xs = sort_key f ys"
proof -
  have keys: "map f (sort_key f zs) = sort (map f zs)" for zs
    by (rule properties_for_sort [symmetric]) simp_all
  have set: "set xs = set ys" using assms(1) by (rule mset_eq_setD)
  have "map f (sort_key f xs) = map f (sort_key f ys)"
    unfolding keys using assms(1) by (metis mset_map sorted_list_of_multiset_mset)
  moreover have "inj_on f (set (sort_key f xs) \<union> set (sort_key f ys))"
    using assms(2) set by (simp add: distinct_map)
  ultimately show ?thesis by (rule map_inj_on)
qed

definition conns_of :: "connection_map \<Rightarrow> resolved_connection list \<Rightarrow> thread_key \<Rightarrow> connection_entry list" where
  "conns_of cstats conns k =
     map (entry_of_connection cstats) (filter (\<lambda>c. ThreadKey (rc_pid c) (rc_tid c) = k) conns)"

lemma push_connections:
  "(case hm_get (fold (push_connection cstats) conns []) k of Some es \<Rightarrow> es | None \<Rightarrow> [])
     = conns_of cstats conns k"
  by (induction conns rule: rev_induct) (auto simp: conns_of_def push_connection_def Let_def hm_simps)

text \<open>The row of a thread.\<close>

definition row_for ::
  "u32 set \<Rightarrow> (thread_key \<Rightarrow> connection_entry list) \<Rightarrow> thread_key \<times> thread_stats \<Rightarrow> process_row" where
  "row_for blocked conns e = (case e of (k, st) \<Rightarrow>
     \<lparr>pr_info = info st, pr_tx_bytes = tx_bytes_total st, pr_rx_bytes = rx_bytes_total st,
      pr_last_seen = last_seen st, pr_tx_history = tx_history st, pr_rx_history = rx_history st,
      pr_is_blocked = (tk_pid k \<in> blocked), pr_connections = conns k\<rparr>)"

lemma build_rows_map:
  "distinct (map fst es) \<Longrightarrow> build_rows blocked es m
     = map (row_for blocked (\<lambda>k. case hm_get m k of Some cs \<Rightarrow> cs | None \<Rightarrow> [])) es"
proof (induction es arbitrary: m)
  case (Cons e es)
  obtain k st where e: "e = (k, st)" by (cases e)
  with Cons.prems have "\<forall>x \<in> set es. fst x \<noteq> k" by force
  then have "row_for blocked (\<lambda>k. case hm_get (hm_remove (fst e) m) k of Some cs \<Rightarrow> cs | None \<Rightarrow> []) x
      = row_for blocked (\<lambda>k. case hm_get m k of Some cs \<Rightarrow> cs | None \<Rightarrow> []) x" if "x \<in> set es" for x
    using that by (cases x) (auto simp: row_for_def hm_simps e)
  with Cons e show ?case by (simp add: row_for_def)
qed simp

lemma published_rows_sort:
  assumes "hm_invar threads"
  shows "published_rows blocked conns cstats threads
    = sort_key row_key (map (row_for blocked (conns_of cstats conns)) threads)"
  using assms by (simp add: published_rows_def build_rows_map hm_invar_def push_connections)

lemma row_keys:
  assumes "\<forall>k st. hm_get threads k = Some st \<longrightarrow> thread_ok k st" and "hm_invar threads"
  shows "map row_key (map (row_for blocked conns) threads) = map fst threads"
  using assms by (auto simp: hm_get_Some_iff row_key_def row_for_def thread_ok_def info_key_def)

text \<open>C15. The published table has exactly one row per tracked thread, with the thread's
  counters and histories, whether its PID is blocked, and the connections the resolver
  lists for it with their bytes; it is sorted by PID and thread, and does not depend on the
  order in which the hash map is iterated.\<close>

theorem published_rows_exact:
  assumes "agg_ok s" and "rows = published_rows blocked (connection_cache s) (conn_stats s) (stats_by_thread s)"
  shows "sorted (map row_key rows) \<and> distinct (map row_key rows)
    \<and> mset rows = mset (map (row_for blocked (conns_of (conn_stats s) (connection_cache s))) (stats_by_thread s))
    \<and> (mset threads = mset (stats_by_thread s) \<longrightarrow>
         published_rows blocked (connection_cache s) (conn_stats s) threads = rows)"
proof -
  let ?f = "row_for blocked (conns_of (conn_stats s) (connection_cache s))"
  have inv: "hm_invar (stats_by_thread s)"
    and tok: "\<forall>k st. hm_get (stats_by_thread s) k = Some st \<longrightarrow> thread_ok k st"
    using agg_okD(2,4) [OF assms(1)] by auto
  have rows: "rows = sort_key row_key (map ?f (stats_by_thread s))"
    unfolding assms(2) by (rule published_rows_sort [OF inv])
  have d: "distinct (map row_key (map ?f (stats_by_thread s)))"
    unfolding row_keys [OF tok inv] using inv by (simp add: hm_invar_def)
  have "distinct (map row_key rows)"
  proof -
    have "mset (map row_key rows) = mset (map row_key (map ?f (stats_by_thread s)))"
      by (simp add: rows multiset.map_comp)
    with d show ?thesis using mset_eq_imp_distinct_iff by blast
  qed
  moreover have "published_rows blocked (connection_cache s) (conn_stats s) threads = rows"
    if m: "mset threads = mset (stats_by_thread s)"
  proof -
    have "mset (map fst threads) = mset (map fst (stats_by_thread s))" using m by simp
    then have "hm_invar threads" using inv unfolding hm_invar_def by (metis mset_eq_imp_distinct_iff)
    then have "published_rows blocked (connection_cache s) (conn_stats s) threads
        = sort_key row_key (map ?f threads)" by (rule published_rows_sort)
    moreover have "mset (map ?f (stats_by_thread s)) = mset (map ?f threads)" using m by simp
    ultimately show ?thesis
      unfolding rows using sort_key_unique [OF _ d] by metis
  qed
  ultimately show ?thesis by (simp add: rows)
qed

theorem published_rows_exact_witness:
  "\<exists>rows. sorted (map row_key rows) \<and> distinct (map row_key rows)
    \<and> mset rows = mset (map (row_for {42} (conns_of (conn_stats busy_state) (connection_cache busy_state)))
        (stats_by_thread busy_state))
    \<and> (mset [] = mset (stats_by_thread busy_state) \<longrightarrow>
         published_rows {42} (connection_cache busy_state) (conn_stats busy_state) [] = rows)"
  using published_rows_exact [OF busy_ok refl] by blast

section \<open>The peak\<close>

definition peak_ok :: "agg_state \<Rightarrow> bool" where
  "peak_ok s \<longleftrightarrow> if_hist Tx s ! 0 + if_hist Rx s ! 0 \<le> peak_bw s"

lemma peak_ok_frame:
  "if_hist Tx s' = if_hist Tx s \<Longrightarrow> if_hist Rx s' = if_hist Rx s \<Longrightarrow> peak_bw s' = peak_bw s
   \<Longrightarrow> peak_ok s' = peak_ok s"
  by (simp add: peak_ok_def)

lemma drain_peak: "drain_flow_channel rs s = Some s' \<Longrightarrow> peak_ok s' = peak_ok s"
proof (induction rs arbitrary: s)
  case (Cons x rs)
  obtain now w rec where x: "x = (now, w, rec)" by (cases x)
  with Cons.prems obtain s1 where s1: "process_record now w rec s = Some s1" "drain_flow_channel rs s1 = Some s'"
    by (auto simp: bind_eq_Some_conv)
  obtain i r where "s1 = apply_record now i rec (s\<lparr>ag_resolver := r\<rparr>)"
    using s1(1) by (rule process_record_cases)
  then have "peak_ok s1 = peak_ok s"
    by (intro peak_ok_frame) (simp_all only: apply_record_if apply_record_frame, simp_all)
  with Cons.IH [OF s1(2)] show ?case by simp
qed simp

lemma agg_iteration_peak:
  assumes "agg_ok s" and "peak_ok s" and "agg_iteration t s = Some s'"
  shows "peak_ok s'"
proof -
  obtain s1 s2 s3 where st: "refresh_connection_cache_if_due (t_now t) (t_world t) s = Some s1"
    "drain_flow_channel (t_records t) s1 = Some s2"
    "mark_exited_threads (t_after t) (t_world t) s2 = Some s3"
    and s': "s' = after_rotation t (rotate_histories_if_due (t_after t) (evict_prune (t_after t) s3))"
    using assms(3) by (rule agg_iteration_steps)
  have ok3: "agg_ok s3"
    using assms(1) st by (blast intro: refresh_cache_ok drain_ok mark_exited_ok)
  have "peak_ok s1" using st(1) assms(2) by (elim refresh_cache_cases) (simp add: peak_ok_def)
  with st(2) have "peak_ok s2" by (simp add: drain_peak)
  with st(3) have p3: "peak_ok s3" by (elim mark_exited_threads_cases) (simp add: peak_ok_def)
  let ?e = "evict_prune (t_after t) s3"
  have pe: "peak_ok ?e" "agg_ok ?e"
    using p3 ok3 by (simp_all add: peak_ok_def evict_prune_ok)
      (simp add: evict_prune_def prune_connection_stats_def evict_stale_threads_def)
  have "peak_ok (snd (rotate_histories_if_due (t_after t) ?e))"
  proof (cases "elapsed (t_after t) (last_rotation ?e) < from_secs 1")
    case True
    with pe show ?thesis by (simp add: rotate_not_due)
  next
    case False
    then obtain s4 where p: "rotate_histories_if_due (t_after t) ?e = (True, s4)"
      using rotate_due by (metis prod.collapse)
    have "if_hist Tx s4 ! 0 + if_hist Rx s4 ! 0 = if_cur Tx ?e + if_cur Rx ?e"
      unfolding rotate_sel(6) [OF pe(2) p] by simp
    then show ?thesis
      using p by (simp add: peak_ok_def rotate_sel(7) [OF pe(2) p])
  qed
  moreover have "peak_ok (after_rotation t p) = peak_ok (snd p)" for p
    by (cases p; cases "fst p"; cases "history_csv (snd p)")
      (simp_all add: after_rotation_def peak_ok_def publish_snapshots_def append_history_csv_def Let_def)
  ultimately show ?thesis unfolding s' by simp
qed

lemma run_agg_peak:
  "agg_ok s \<Longrightarrow> peak_ok s \<Longrightarrow> run_agg_iterations ts s = Some s' \<Longrightarrow> peak_ok s'"
proof (induction ts arbitrary: s)
  case (Cons t ts)
  then show ?case
    by (auto simp: bind_eq_Some_conv intro: agg_iteration_peak agg_iteration_ok)
qed simp

lemma hsum_first: "h \<noteq> [] \<Longrightarrow> unat (h ! 0) \<le> hsum h"
  by (cases h) simp_all

text \<open>In every snapshot the loop publishes, the peak bandwidth is at least the current one,
  as long as fewer than \<open>2 ^ 64\<close> bytes were received in all.\<close>

theorem peak_bounds_current:
  assumes "run_aggregator_loop describe now w csv ticks sh = Some (Inr s)"
    and "received (all_records ticks) Tx + received (all_records ticks) Rx < 2 ^ 64"
  shows "is_current_bandwidth (published_interface s iface) \<le> is_peak_bandwidth (published_interface s iface)"
proof -
  obtain r where r: "resolver_new now w = Inr r"
    and run: "run_agg_iterations ticks (agg_init now r csv sh) = Some s"
    using assms(1) by (auto simp: run_aggregator_loop_def split: sum.splits)
  let ?s0 = "agg_init now r csv sh"
  have init: "agg_ok ?s0" "accounts (\<lambda>_. 0) ?s0"
    using agg_init_ok [OF resolver_new_ok [OF r]] by auto
  have "peak_ok ?s0" by (simp add: peak_ok_def agg_init_def zero_history_def HISTORY_SLOTS_def)
  with init(1) run have p: "peak_ok s" by (blast intro: run_agg_peak)
  have b: "\<forall>d. 0 + received (all_records ticks) d < 2 ^ 64"
    using assms(2) by (simp add: all_direction)
  have "accounts (\<lambda>d. 0 + received (all_records ticks) d) s" and ok: "agg_ok s"
    using run_agg_invariants [OF init b run] by auto
  note bound = accountsD(3) [OF this(1)]
  have ne: "if_hist d s \<noteq> []" for d
    using agg_okD(5) [OF ok, of d] by (auto simp: HISTORY_SLOTS_def)
  have "unat (if_hist Tx s ! 0) + unat (if_hist Rx s ! 0) < 2 ^ 64"
    using hsum_first [OF ne, of Tx] hsum_first [OF ne, of Rx] bound [of Tx] bound [of Rx] assms(2) by simp
  then have "saturating_add (if_tx_history s ! 0) (if_rx_history s ! 0)
      = if_hist Tx s ! 0 + if_hist Rx s ! 0"
    by (simp add: saturating_add_def)
  with p show ?thesis by (simp add: published_interface_def peak_ok_def)
qed

theorem peak_bounds_current_witness:
  "\<exists>s. run_aggregator_loop (\<lambda>_. '''') 0 quiet_world None [quiet_tick] fresh_shared = Some (Inr s)
    \<and> is_current_bandwidth (published_interface s interface_stats_default)
        \<le> is_peak_bandwidth (published_interface s interface_stats_default)"
proof -
  have "\<exists>s. run_aggregator_loop (\<lambda>_. '''') 0 quiet_world None [quiet_tick] fresh_shared = Some (Inr s)"
    unfolding run_aggregator_loop_def
    using run_agg_returns [of "[quiet_tick]" "agg_init 0 _ None fresh_shared"] quiet_tick_answers
    by (simp add: resolver_new_def load_uid_map_def quiet_world_def dead_world_def del: run_agg_iterations.simps)
  then obtain s where s: "run_aggregator_loop (\<lambda>_. '''') 0 quiet_world None [quiet_tick] fresh_shared
      = Some (Inr s)" by blast
  have "received (all_records [quiet_tick]) Tx + received (all_records [quiet_tick]) Rx < 2 ^ 64"
    by (simp add: all_records_def records_of_def quiet_tick_def)
  from peak_bounds_current [OF s this] s show ?thesis by blast
qed

section \<open>The history file\<close>

lemma sanitize_no_comma: "CHR '','' \<notin> set (sanitize_csv v)"
  by (auto simp: sanitize_csv_def replace_char_def)

lemma show_word_no_comma: "CHR '','' \<notin> set (show_word w)"
proof
  assume "CHR '','' \<in> set (show_word w)"
  then have "alnum (CHR '','')" using alnum_show_nat by (auto simp: show_word_def)
  then show False by (simp add: alnum_def)
qed


end
