(* ===== verification/Capture_Wire.thy ===== *)
theory Capture_Wire
  imports Capture
begin

text \<open>
  The reference the packet parser is measured against: Ethernet II frames with at most
  one VLAN tag that carry TCP or UDP over IPv4 (options included) or over IPv6 (no
  extension header), as a datatype with its byte layout. The parser accepts exactly the
  byte strings that are the layout of such a frame, and returns its addresses and ports.
\<close>

section \<open>Frames and their layout\<close>

definition u16_to_be_bytes :: "u16 \<Rightarrow> u8 list" where
  "u16_to_be_bytes w = [of_nat (unat w div 256), of_nat (unat w mod 256)]"

text \<open>
  \<open>ip_first\<close> is the byte with the version in its upper half, \<open>ip_head\<close> the bytes up to
  the protocol number (IPv4) or next header (IPv6), \<open>ip_mid\<close> those between it and the
  source address.
\<close>

record l3_packet =
  ip_first :: u8
  ip_head :: "u8 list"
  ip_proto :: u8
  ip_mid :: "u8 list"
  ip_src :: "u8 list"
  ip_dst :: "u8 list"
  ip_options :: "u8 list"
  l4_sport :: u16
  l4_dport :: u16
  l4_rest :: "u8 list"

record frame =
  macs :: "u8 list"
  vlan_tag :: "(u16 \<times> u8 list) option"
  is_ipv6 :: bool
  packet :: l3_packet

definition encode_l3 :: "l3_packet \<Rightarrow> u8 list" where
  "encode_l3 p = ip_first p # ip_head p @ ip_proto p # ip_mid p @ ip_src p @ ip_dst p
     @ ip_options p @ u16_to_be_bytes (l4_sport p) @ u16_to_be_bytes (l4_dport p) @ l4_rest p"

definition encode_frame :: "frame \<Rightarrow> u8 list" where
  "encode_frame f = macs f
     @ (case vlan_tag f of None \<Rightarrow> [] | Some (tpid, tci) \<Rightarrow> u16_to_be_bytes tpid @ tci)
     @ u16_to_be_bytes (if is_ipv6 f then ETHERTYPE_IPV6 else ETHERTYPE_IPV4)
     @ encode_l3 (packet f)"

definition l3_wf :: "bool \<Rightarrow> l3_packet \<Rightarrow> bool" where
  "l3_wf v6 p \<longleftrightarrow> (ip_proto p = 6 \<or> ip_proto p = 17)
     \<and> (if v6
        then drop_bit 4 (ip_first p) = 6 \<and> length (ip_head p) = 5 \<and> length (ip_mid p) = 1
          \<and> length (ip_src p) = 16 \<and> length (ip_dst p) = 16 \<and> ip_options p = []
        else drop_bit 4 (ip_first p) = 4 \<and> length (ip_head p) = 8 \<and> length (ip_mid p) = 2
          \<and> length (ip_src p) = 4 \<and> length (ip_dst p) = 4
          \<and> unat (ip_first p AND 0x0f) * 4 = 20 + length (ip_options p))"

definition frame_wf :: "frame \<Rightarrow> bool" where
  "frame_wf f \<longleftrightarrow> length (macs f) = 12
     \<and> (case vlan_tag f of None \<Rightarrow> True
        | Some (tpid, tci) \<Rightarrow> (tpid = ETHERTYPE_VLAN_8021Q \<or> tpid = ETHERTYPE_VLAN_8021AD)
            \<and> length tci = 2)
     \<and> l3_wf (is_ipv6 f) (packet f)"

definition ip_of :: "bool \<Rightarrow> u8 list \<Rightarrow> ip_addr" where
  "ip_of v6 os = (if v6 then V6 os else V4 (os ! 0) (os ! 1) (os ! 2) (os ! 3))"

definition l4_of :: "bool \<Rightarrow> l3_packet \<Rightarrow> parsed_l4" where
  "l4_of v6 p = \<lparr>l4_src_ip = ip_of v6 (ip_src p), l4_dst_ip = ip_of v6 (ip_dst p),
     l4_src_port = l4_sport p, l4_dst_port = l4_dport p,
     l4_protocol = (if ip_proto p = 6 then Tcp else Udp)\<rparr>"

definition flow_of :: "frame \<Rightarrow> flow_key" where
  "flow_of f = (let p = l4_of (is_ipv6 f) (packet f) in
     \<lparr>src_ip = l4_src_ip p, dst_ip = l4_dst_ip p, src_port = l4_src_port p,
      dst_port = l4_dst_port p, fk_protocol = l4_protocol p\<rparr>)"

section \<open>Bytes and ports\<close>

lemma u16_bytes_roundtrip [simp]:
  "u16_from_be_bytes (of_nat (unat w div 256)) (of_nat (unat w mod 256)) = w"
proof -
  have "unat w < 65536" using unsigned_less [of w] by simp
  then have "unat w div 256 < 256" by (simp add: less_mult_imp_div_less)
  then show ?thesis
    by (simp add: u16_from_be_bytes_def unat_of_nat mod_mult_div_eq mult.commute [of 256]
        flip: word_unat_eq_iff)
qed

lemma bytes_u16_roundtrip [simp]: "u16_to_be_bytes (u16_from_be_bytes a b) = [a, b]"
proof -
  have "unat a < 256" "unat b < 256" using unsigned_less [of a] unsigned_less [of b] by simp_all
  then have "256 * unat a + unat b < 65536" by simp
  then have "unat (u16_from_be_bytes a b) = 256 * unat a + unat b"
    by (simp only: u16_from_be_bytes_def unat_of_nat) simp
  with \<open>unat b < 256\<close> show ?thesis by (simp add: u16_to_be_bytes_def)
qed

lemma idx_append_right [simp]: "idx (xs @ ys) (length xs + i) = idx ys i"
  by (simp add: idx_def)

lemma idx_append_right0 [simp]: "idx (xs @ ys) (length xs) = idx ys 0"
  by (simp add: idx_def nth_append)

lemma split_at: "n \<le> length xs \<Longrightarrow> \<exists>ys zs. xs = ys @ zs \<and> length ys = n"
  by (metis append_take_drop_id length_take min.absorb2)

lemma list4: "length xs = 4 \<Longrightarrow> xs = [xs ! 0, xs ! 1, xs ! 2, xs ! 3]"
  by (auto simp: numeral_eq_Suc length_Suc_conv)

lemma two_bytes: "length xs = 2 \<Longrightarrow> \<exists>a b. xs = [a, b]"
  by (auto simp: numeral_2_eq_2 length_Suc_conv)

section \<open>Reading a well-formed packet back\<close>

text \<open>A parser sees only the bytes from its offset on.\<close>

lemma idx_append_Suc [simp]:
  "idx (xs @ ys) (Suc (length xs + i)) = idx ys (Suc i)"
  "idx (xs @ ys) (Suc (Suc (length xs + i))) = idx ys (Suc (Suc i))"
  using idx_append_right [of xs ys "Suc i"] idx_append_right [of xs ys "Suc (Suc i)"] by simp_all

lemma parse_ipv4_shift: "parse_ipv4 (hdr @ bs) (length hdr) = parse_ipv4 bs 0"
  by (simp add: parse_ipv4_def Let_def add.assoc cong: if_cong del: idx_in)

lemma parse_ipv6_shift: "parse_ipv6 (hdr @ bs) (length hdr) = parse_ipv6 bs 0"
  by (simp add: parse_ipv6_def Let_def read_ipv6_address_returns add.assoc cong: if_cong del: idx_in)

lemma parse_ipv4_explicit:
  assumes "length hd8 = 8" "length mid = 2" "length src = 4" "length dst = 4"
  shows "parse_ipv4 (b # hd8 @ n # mid @ src @ dst @ tail) 0 = Some
    (let ihl = unat (b AND 0x0f) * 4; opt = ihl - 20 in
     if drop_bit 4 b \<noteq> 4 \<or> ihl < 20 \<or> length tail < opt + 4 \<or> is_other (protocol_from_num n)
     then None
     else Some \<lparr>l4_src_ip = ip_of False src, l4_dst_ip = ip_of False dst,
       l4_src_port = u16_from_be_bytes (tail ! opt) (tail ! (opt + 1)),
       l4_dst_port = u16_from_be_bytes (tail ! (opt + 2)) (tail ! (opt + 3)),
       l4_protocol = protocol_from_num n\<rparr>)"
proof -
  obtain h0 h1 h2 h3 h4 h5 h6 h7 where hd8: "hd8 = [h0, h1, h2, h3, h4, h5, h6, h7]"
    using assms(1) by (auto simp: numeral_eq_Suc length_Suc_conv)
  obtain m0 m1 where mid: "mid = [m0, m1]" using two_bytes [OF assms(2)] by blast
  obtain s0 s1 s2 s3 where src: "src = [s0, s1, s2, s3]" using list4 [OF assms(3)] by blast
  obtain d0 d1 d2 d3 where dst: "dst = [d0, d1, d2, d3]" using list4 [OF assms(4)] by blast
  define fixed where
    "fixed = [b, h0, h1, h2, h3, h4, h5, h6, h7, n, m0, m1, s0, s1, s2, s3, d0, d1, d2, d3]"
  define bs where "bs = fixed @ tail"
  have bs: "b # hd8 @ n # mid @ src @ dst @ tail = bs"
    by (simp add: bs_def fixed_def hd8 mid src dst)
  have len: "length fixed = 20" "length bs = 20 + length tail" by (simp_all add: bs_def fixed_def)
  have early: "idx bs 0 = Some b" "idx bs 9 = Some n" "idx bs 12 = Some s0" "idx bs 13 = Some s1"
    "idx bs 14 = Some s2" "idx bs 15 = Some s3" "idx bs 16 = Some d0" "idx bs 17 = Some d1"
    "idx bs 18 = Some d2" "idx bs 19 = Some d3"
    by (simp_all add: bs_def fixed_def)
  have later: "idx bs (20 + k) = idx tail k" for k
    using idx_append_right [of fixed tail k] len by (simp add: bs_def)
  note step = parse_ipv4_def Let_def capture_consts early bind_eq_Some_conv
  show ?thesis
  proof (cases "unat (b AND 0x0f) * 4 < 20")
    case True
    then show ?thesis unfolding bs by (simp add: step len del: idx_in)
  next
    case False
    then obtain k where k: "unat (b AND 0x0f) * 4 = 20 + k" using le_Suc_ex not_less by blast
    have ports: "idx bs (20 + k) = idx tail k" "idx bs (Suc (20 + k)) = idx tail (Suc k)"
      "idx bs (20 + k + 2) = idx tail (k + 2)" "idx bs (20 + k + 3) = idx tail (k + 3)"
      using later [of k] later [of "Suc k"] later [of "k + 2"] later [of "k + 3"] by simp_all
    show ?thesis
      unfolding bs parse_ipv4_def Let_def capture_consts add_0 early bind.bind_lunit k ports
      by (simp add: src dst ip_of_def len ports [simplified])
  qed
qed

lemma parse_ipv6_explicit:
  assumes "length hd5 = 5" "length mid = 1" "length src = 16" "length dst = 16"
  shows "parse_ipv6 (b # hd5 @ n # mid @ src @ dst @ tail) 0 = Some
    (if drop_bit 4 b \<noteq> 6 \<or> length tail < 4 \<or> is_other (protocol_from_num n) then None
     else Some \<lparr>l4_src_ip = ip_of True src, l4_dst_ip = ip_of True dst,
       l4_src_port = u16_from_be_bytes (tail ! 0) (tail ! 1),
       l4_dst_port = u16_from_be_bytes (tail ! 2) (tail ! 3),
       l4_protocol = protocol_from_num n\<rparr>)"
proof -
  obtain h0 h1 h2 h3 h4 where hd5: "hd5 = [h0, h1, h2, h3, h4]"
    using assms(1) by (auto simp: numeral_eq_Suc length_Suc_conv)
  obtain m where mid: "mid = [m]" using assms(2) by (auto simp: length_Suc_conv)
  define fixed where "fixed = [b, h0, h1, h2, h3, h4, n, m]"
  define bs where "bs = fixed @ src @ dst @ tail"
  have bs: "b # hd5 @ n # mid @ src @ dst @ tail = bs"
    by (simp add: bs_def fixed_def hd5 mid)
  have len: "length fixed = 8" "length bs = 40 + length tail"
    by (simp_all add: bs_def fixed_def assms)
  have early: "idx bs 0 = Some b" "idx bs 6 = Some n" by (simp_all add: bs_def fixed_def)
  have addrs: "take 16 (drop 8 bs) = src" "take 16 (drop 24 bs) = dst"
    by (simp_all add: bs_def len assms)
  have "idx bs (40 + k) = idx tail k" for k
    using idx_append_right [of "fixed @ src @ dst" tail k] by (simp add: bs_def len assms)
  from this [of 0] this [of 1] this [of 2] this [of 3]
  have ports: "idx bs 40 = idx tail 0" "idx bs 41 = idx tail 1" "idx bs 42 = idx tail 2"
    "idx bs 43 = idx tail 3" by simp_all
  have port0: "\<not> length tail < 4 \<Longrightarrow> idx tail 0 = Some (tail ! 0)" by (rule idx_in) linarith
  show ?thesis
    unfolding bs parse_ipv6_def Let_def capture_consts add_0 early bind.bind_lunit
      read_ipv6_address_returns
    by (cases "length tail < 4") (simp_all add: ip_of_def len addrs ports port0)
qed

lemma split_ipv4:
  assumes "20 \<le> length xs"
  obtains b hd8 n mid src dst tail where "xs = b # hd8 @ n # mid @ src @ dst @ tail"
    "length hd8 = 8" "length mid = 2" "length src = 4" "length dst = 4"
proof -
  have cut: "xs = xs ! 0 # take 8 (drop 1 xs) @ xs ! 9 # take 2 (drop 10 xs) @ take 4 (drop 12 xs)
      @ take 4 (drop 16 xs) @ drop 20 xs"
    using assms by (intro nth_equalityI) (auto simp: nth_append nth_Cons' intro!: arg_cong [of _ _ "nth xs"])
  show ?thesis by (rule that [OF cut]) (use assms in simp_all)
qed

lemma split_ipv6:
  assumes "40 \<le> length xs"
  obtains b hd5 n mid src dst tail where "xs = b # hd5 @ n # mid @ src @ dst @ tail"
    "length hd5 = 5" "length mid = 1" "length src = 16" "length dst = 16"
proof -
  have cut: "xs = xs ! 0 # take 5 (drop 1 xs) @ xs ! 6 # take 1 (drop 7 xs) @ take 16 (drop 8 xs)
      @ take 16 (drop 24 xs) @ drop 40 xs"
    using assms by (intro nth_equalityI) (auto simp: nth_append nth_Cons' intro!: arg_cong [of _ _ "nth xs"])
  show ?thesis by (rule that [OF cut]) (use assms in simp_all)
qed

section \<open>Network-layer packets\<close>

definition parse_l3 :: "bool \<Rightarrow> u8 list \<Rightarrow> nat \<Rightarrow> parsed_l4 option option" where
  "parse_l3 v6 = (if v6 then parse_ipv6 else parse_ipv4)"

lemma parse_l3_shift: "parse_l3 v6 (hdr @ bs) (length hdr) = parse_l3 v6 bs 0"
  by (simp add: parse_l3_def parse_ipv4_shift parse_ipv6_shift)

lemma parse_l3_encode:
  assumes "l3_wf v6 p"
  shows "parse_l3 v6 (encode_l3 p) 0 = Some (Some (l4_of v6 p))"
proof (cases v6)
  case True
  with assms have "ip_options p = []" by (simp add: l3_wf_def)
  with True assms show ?thesis
    by (auto simp: parse_l3_def encode_l3_def parse_ipv6_explicit l3_wf_def l4_of_def
        protocol_from_num_def capture_consts u16_to_be_bytes_def)
next
  case False
  with assms have ihl: "unat (ip_first p AND 0x0f) * 4 = 20 + length (ip_options p)"
    by (simp add: l3_wf_def)
  from False assms show ?thesis
    by (auto simp: parse_l3_def encode_l3_def parse_ipv4_explicit l3_wf_def l4_of_def ihl Let_def
        protocol_from_num_def capture_consts u16_to_be_bytes_def nth_append)
qed

lemma protocol_accepted:
  "\<not> is_other (protocol_from_num n) \<longleftrightarrow> n = 6 \<or> n = 17"
  by (simp add: protocol_from_num_def capture_consts)

lemma split_ports:
  assumes "k + 4 \<le> length xs"
  shows "xs = take k xs @ [xs ! k, xs ! (k + 1), xs ! (k + 2), xs ! (k + 3)] @ drop (k + 4) xs"
  using assms by (intro nth_equalityI)
    (auto simp: nth_append nth_Cons' intro!: arg_cong [of _ _ "nth xs"])

lemma parse_ipv6_accepts:
  assumes acc: "parse_ipv6 bs 0 = Some (Some p)"
  shows "\<exists>q. l3_wf True q \<and> bs = encode_l3 q \<and> p = l4_of True q"
proof -
  from acc have "40 \<le> length bs" by (auto simp: parse_ipv6_def capture_consts split: if_splits)
  then obtain b hd5 n mid src dst tail where bs: "bs = b # hd5 @ n # mid @ src @ dst @ tail"
    and len: "length hd5 = 5" "length mid = 1" "length src = 16" "length dst = 16"
    by (rule split_ipv6)
  from acc have ok: "drop_bit 4 b = 6" "\<not> length tail < 4" "\<not> is_other (protocol_from_num n)"
    and p: "p = \<lparr>l4_src_ip = ip_of True src, l4_dst_ip = ip_of True dst,
       l4_src_port = u16_from_be_bytes (tail ! 0) (tail ! 1),
       l4_dst_port = u16_from_be_bytes (tail ! 2) (tail ! 3),
       l4_protocol = protocol_from_num n\<rparr>"
    unfolding bs parse_ipv6_explicit [OF len] by (auto split: if_splits)
  let ?q = "\<lparr>ip_first = b, ip_head = hd5, ip_proto = n, ip_mid = mid, ip_src = src, ip_dst = dst,
     ip_options = [], l4_sport = u16_from_be_bytes (tail ! 0) (tail ! 1),
     l4_dport = u16_from_be_bytes (tail ! 2) (tail ! 3), l4_rest = drop 4 tail\<rparr>"
  have "bs = encode_l3 ?q"
    using split_ports [of 0 tail] ok(2) by (simp add: bs encode_l3_def numeral_2_eq_2)
  moreover have "l3_wf True ?q" using ok len by (simp add: l3_wf_def protocol_accepted)
  moreover have "p = l4_of True ?q"
    using ok(3) by (auto simp: p l4_of_def protocol_from_num_def capture_consts split: if_splits)
  ultimately show ?thesis by blast
qed

lemma parse_ipv4_accepts:
  assumes acc: "parse_ipv4 bs 0 = Some (Some p)"
  shows "\<exists>q. l3_wf False q \<and> bs = encode_l3 q \<and> p = l4_of False q"
proof -
  from acc have "20 \<le> length bs" by (auto simp: parse_ipv4_def capture_consts split: if_splits)
  then obtain b hd8 n mid src dst tail where bs: "bs = b # hd8 @ n # mid @ src @ dst @ tail"
    and len: "length hd8 = 8" "length mid = 2" "length src = 4" "length dst = 4"
    by (rule split_ipv4)
  define k where "k = unat (b AND 0x0f) * 4 - 20"
  from acc have ok: "drop_bit 4 b = 4" "20 \<le> unat (b AND 0x0f) * 4" "k + 4 \<le> length tail"
      "\<not> is_other (protocol_from_num n)"
    and p: "p = \<lparr>l4_src_ip = ip_of False src, l4_dst_ip = ip_of False dst,
       l4_src_port = u16_from_be_bytes (tail ! k) (tail ! (k + 1)),
       l4_dst_port = u16_from_be_bytes (tail ! (k + 2)) (tail ! (k + 3)),
       l4_protocol = protocol_from_num n\<rparr>"
    unfolding bs parse_ipv4_explicit [OF len] Let_def k_def [symmetric]
    by (auto split: if_splits)
  let ?q = "\<lparr>ip_first = b, ip_head = hd8, ip_proto = n, ip_mid = mid, ip_src = src, ip_dst = dst,
     ip_options = take k tail, l4_sport = u16_from_be_bytes (tail ! k) (tail ! (k + 1)),
     l4_dport = u16_from_be_bytes (tail ! (k + 2)) (tail ! (k + 3)), l4_rest = drop (k + 4) tail\<rparr>"
  have "bs = encode_l3 ?q"
    using split_ports [OF ok(3)] by (simp add: bs encode_l3_def)
  moreover have "l3_wf False ?q" using ok len by (simp add: l3_wf_def protocol_accepted k_def)
  moreover have "p = l4_of False ?q"
    using ok(4) by (auto simp: p l4_of_def protocol_from_num_def capture_consts split: if_splits)
  ultimately show ?thesis by blast
qed

lemma parse_l3_accepts:
  "parse_l3 v6 bs 0 = Some (Some p) \<Longrightarrow> \<exists>q. l3_wf v6 q \<and> bs = encode_l3 q \<and> p = l4_of v6 q"
  by (cases v6) (auto simp: parse_l3_def dest: parse_ipv6_accepts parse_ipv4_accepts)

section \<open>Frames\<close>

definition record_of :: "instant \<Rightarrow> u32 \<Rightarrow> ip_addr list \<Rightarrow> flow_key \<Rightarrow> flow_record" where
  "record_of now len ips k = \<lparr>fr_key = k, byte_count = len, timestamp = now,
     fr_direction = classify_direction ips (src_ip k) (dst_ip k)\<rparr>"

text \<open>Behind the addresses and tags, \<open>parse_packet\<close> is the parser the EtherType selects.\<close>

definition flow_key_of_l4 :: "parsed_l4 \<Rightarrow> flow_key" where
  "flow_key_of_l4 p = \<lparr>src_ip = l4_src_ip p, dst_ip = l4_dst_ip p, src_port = l4_src_port p,
      dst_port = l4_dst_port p, fk_protocol = l4_protocol p\<rparr>"

definition by_ethertype :: "u16 \<Rightarrow> u8 list \<Rightarrow> parsed_l4 option" where
  "by_ethertype et bs =
     (if et = ETHERTYPE_IPV4 then the (parse_ipv4 bs 0)
      else if et = ETHERTYPE_IPV6 then the (parse_ipv6 bs 0) else None)"

lemma parse_ipv4_at: "parse_ipv4 (hdr @ bs) (length hdr) = Some (the (parse_ipv4 bs 0))"
  using ipv4.outcome [of bs 0] by (auto simp: parse_ipv4_shift)

lemma parse_ipv6_at: "parse_ipv6 (hdr @ bs) (length hdr) = Some (the (parse_ipv6 bs 0))"
  using ipv6.outcome [of bs 0] by (auto simp: parse_ipv6_shift)

lemma parse_packet_untagged:
  assumes mac: "length mac = 12"
    and plain: "u16_from_be_bytes t0 t1 \<notin> {ETHERTYPE_VLAN_8021Q, ETHERTYPE_VLAN_8021AD}"
  shows "parse_packet now (mac @ t0 # t1 # bs) len ips =
     Some (map_option (record_of now len ips \<circ> flow_key_of_l4)
       (by_ethertype (u16_from_be_bytes t0 t1) bs))"
proof -
  let ?hdr = "mac @ [t0, t1]"
  have split: "mac @ t0 # t1 # bs = ?hdr @ bs" and hdr: "length ?hdr = 14" using mac by simp_all
  have et: "idx (?hdr @ bs) 12 = Some t0" "idx (?hdr @ bs) 13 = Some t1"
    using mac by (simp_all add: nth_append)
  have l3: "parse_ipv4 (?hdr @ bs) 14 = Some (the (parse_ipv4 bs 0))"
      "parse_ipv6 (?hdr @ bs) 14 = Some (the (parse_ipv6 bs 0))"
    using parse_ipv4_at [of ?hdr bs] parse_ipv6_at [of ?hdr bs] unfolding hdr by blast+
  from plain show ?thesis
    unfolding split parse_packet_def et
    by (simp add: Let_def l3 hdr by_ethertype_def ETHERNET_HEADER_LEN_def record_of_def
        flow_key_of_l4_def mac split: option.split del: append_assoc)
qed

lemma parse_packet_tagged:
  assumes mac: "length mac = 12" and tci: "length tci = 2"
    and tagged: "tpid \<in> {ETHERTYPE_VLAN_8021Q, ETHERTYPE_VLAN_8021AD}"
  shows "parse_packet now (mac @ u16_to_be_bytes tpid @ tci @ t0 # t1 # bs) len ips =
     Some (map_option (record_of now len ips \<circ> flow_key_of_l4)
       (by_ethertype (u16_from_be_bytes t0 t1) bs))"
proof -
  obtain c0 c1 where c: "tci = [c0, c1]" using two_bytes [OF tci] by blast
  obtain p0 p1 where p: "u16_to_be_bytes tpid = [p0, p1]" "u16_from_be_bytes p0 p1 = tpid"
    by (simp add: u16_to_be_bytes_def)
  let ?hdr = "mac @ [p0, p1, c0, c1, t0, t1]"
  have split: "mac @ u16_to_be_bytes tpid @ tci @ t0 # t1 # bs = ?hdr @ bs"
    and hdr: "length ?hdr = 18" using mac by (simp_all add: c p)
  have et: "idx (?hdr @ bs) 12 = Some p0" "idx (?hdr @ bs) 13 = Some p1"
      "idx (?hdr @ bs) 16 = Some t0" "idx (?hdr @ bs) 17 = Some t1"
    using mac by (simp_all add: nth_append)
  have l3: "parse_ipv4 (?hdr @ bs) 18 = Some (the (parse_ipv4 bs 0))"
      "parse_ipv6 (?hdr @ bs) 18 = Some (the (parse_ipv6 bs 0))"
    using parse_ipv4_at [of ?hdr bs] parse_ipv6_at [of ?hdr bs] unfolding hdr by blast+
  from tagged show ?thesis
    unfolding split parse_packet_def et
    by (simp add: Let_def p(2) l3 hdr by_ethertype_def ETHERNET_HEADER_LEN_def
        VLAN_ETHERNET_HEADER_LEN_def record_of_def flow_key_of_l4_def mac
        split: option.split del: append_assoc)
qed


lemma by_ethertype_encode:
  assumes "l3_wf v6 p"
  shows "by_ethertype (if v6 then ETHERTYPE_IPV6 else ETHERTYPE_IPV4) (encode_l3 p) = Some (l4_of v6 p)"
  using parse_l3_encode [OF assms]
  by (cases v6) (simp_all add: by_ethertype_def parse_l3_def ETHERTYPE_IPV4_def ETHERTYPE_IPV6_def)

lemma by_ethertype_accepts:
  assumes "by_ethertype et bs = Some p"
  obtains v6 q where "l3_wf v6 q" "bs = encode_l3 q" "p = l4_of v6 q"
    "et = (if v6 then ETHERTYPE_IPV6 else ETHERTYPE_IPV4)"
proof (cases "et = ETHERTYPE_IPV4")
  case True
  with assms ipv4.returns [of bs 0] have "parse_l3 False bs 0 = Some (Some p)"
    by (auto simp: by_ethertype_def parse_l3_def)
  from parse_l3_accepts [OF this] True show ?thesis by (auto intro: that [of False])
next
  case False
  with assms ipv6.returns [of bs 0]
  have "parse_l3 True bs 0 = Some (Some p)" and "et = ETHERTYPE_IPV6"
    by (auto simp: by_ethertype_def parse_l3_def split: if_splits)
  with parse_l3_accepts [OF this(1)] show ?thesis by (auto intro: that [of True])
qed

lemma flow_of_l4: "flow_of f = flow_key_of_l4 (l4_of (is_ipv6 f) (packet f))"
  by (simp add: flow_of_def flow_key_of_l4_def Let_def)

lemma ethertypes_not_vlan:
  "(if v6 then ETHERTYPE_IPV6 else ETHERTYPE_IPV4) \<notin> {ETHERTYPE_VLAN_8021Q, ETHERTYPE_VLAN_8021AD}"
  by (simp add: capture_consts)

lemma parse_packet_encode_frame:
  assumes "frame_wf f"
  shows "parse_packet now (encode_frame f) len ips = Some (Some (record_of now len ips (flow_of f)))"
proof -
  let ?et = "if is_ipv6 f then ETHERTYPE_IPV6 else ETHERTYPE_IPV4"
  obtain t0 t1 where t: "u16_to_be_bytes ?et = [t0, t1]" "u16_from_be_bytes t0 t1 = ?et"
    by (simp add: u16_to_be_bytes_def)
  from assms have mac: "length (macs f) = 12" and l3: "l3_wf (is_ipv6 f) (packet f)"
    by (simp_all add: frame_wf_def)
  show ?thesis
  proof (cases "vlan_tag f")
    case None
    then have "encode_frame f = macs f @ t0 # t1 # encode_l3 (packet f)"
      by (simp add: encode_frame_def t)
    with ethertypes_not_vlan [of "is_ipv6 f"] by_ethertype_encode [OF l3] show ?thesis
      by (simp add: parse_packet_untagged mac t flow_of_l4)
  next
    case (Some tag)
    then obtain tpid tci where tag: "vlan_tag f = Some (tpid, tci)" by (cases tag) auto
    with assms have "tpid \<in> {ETHERTYPE_VLAN_8021Q, ETHERTYPE_VLAN_8021AD}" "length tci = 2"
      by (simp_all add: frame_wf_def)
    moreover have "encode_frame f = macs f @ u16_to_be_bytes tpid @ tci @ t0 # t1 # encode_l3 (packet f)"
      by (simp add: encode_frame_def tag t)
    ultimately show ?thesis
      using by_ethertype_encode [OF l3] by (simp add: parse_packet_tagged mac t flow_of_l4)
  qed
qed

lemma parse_packet_long:
  assumes "parse_packet now bs len ips = Some (Some r)"
  obtains mac t0 t1 rest where "bs = mac @ t0 # t1 # rest" "length mac = 12"
proof -
  from assms have "14 \<le> length bs"
    by (auto simp: parse_packet_def ETHERNET_HEADER_LEN_def split: if_splits)
  then have "bs = take 12 bs @ bs ! 12 # bs ! 13 # drop 14 bs"
    by (intro nth_equalityI) (auto simp: nth_append nth_Cons' intro!: arg_cong [of _ _ "nth bs"])
  then show ?thesis by (rule that) (use \<open>14 \<le> length bs\<close> in simp)
qed

lemma parse_packet_accepts:
  assumes acc: "parse_packet now bs len ips = Some (Some r)"
  shows "\<exists>f. frame_wf f \<and> bs = encode_frame f \<and> r = record_of now len ips (flow_of f)"
proof -
  obtain mac t0 t1 rest where bs: "bs = mac @ t0 # t1 # rest" and mac: "length mac = 12"
    using parse_packet_long [OF acc] .
  let ?tpid = "u16_from_be_bytes t0 t1"
  show ?thesis
  proof (cases "?tpid \<in> {ETHERTYPE_VLAN_8021Q, ETHERTYPE_VLAN_8021AD}")
    case False
    from acc [unfolded bs parse_packet_untagged [OF mac False]]
    obtain p where "by_ethertype ?tpid rest = Some p" and r: "r = record_of now len ips (flow_key_of_l4 p)"
      by auto
    then obtain v6 q where q: "l3_wf v6 q" "rest = encode_l3 q" "p = l4_of v6 q"
        "?tpid = (if v6 then ETHERTYPE_IPV6 else ETHERTYPE_IPV4)"
      by (elim by_ethertype_accepts) blast
    let ?f = "\<lparr>macs = mac, vlan_tag = None, is_ipv6 = v6, packet = q\<rparr>"
    have "bs = encode_frame ?f" by (simp add: bs encode_frame_def q(2) flip: q(4))
    moreover have "frame_wf ?f" by (simp add: frame_wf_def mac q(1))
    moreover have "r = record_of now len ips (flow_of ?f)" by (simp add: r flow_of_l4 q(3))
    ultimately show ?thesis by blast
  next
    case True
    from True acc have "18 \<le> length bs"
      by (auto simp: bs parse_packet_def Let_def nth_append mac VLAN_ETHERNET_HEADER_LEN_def
          split: if_splits)
    then have "4 \<le> length rest" by (simp add: bs mac)
    then have rest: "rest = take 2 rest @ rest ! 2 # rest ! 3 # drop 4 rest"
      by (intro nth_equalityI) (auto simp: nth_append nth_Cons' intro!: arg_cong [of _ _ "nth rest"])
    let ?tci = "take 2 rest" and ?et = "u16_from_be_bytes (rest ! 2) (rest ! 3)"
    have bs': "bs = mac @ u16_to_be_bytes ?tpid @ ?tci @ rest ! 2 # rest ! 3 # drop 4 rest"
      using rest by (simp add: bs)
    have tci: "length ?tci = 2" using \<open>4 \<le> length rest\<close> by simp
    from acc [unfolded bs' parse_packet_tagged [OF mac tci True]]
    obtain p where "by_ethertype ?et (drop 4 rest) = Some p"
      and r: "r = record_of now len ips (flow_key_of_l4 p)" by auto
    then obtain v6 q where q: "l3_wf v6 q" "drop 4 rest = encode_l3 q" "p = l4_of v6 q"
        "?et = (if v6 then ETHERTYPE_IPV6 else ETHERTYPE_IPV4)"
      by (elim by_ethertype_accepts) blast
    let ?f = "\<lparr>macs = mac, vlan_tag = Some (?tpid, ?tci), is_ipv6 = v6, packet = q\<rparr>"
    have "bs = encode_frame ?f" by (subst bs') (simp add: encode_frame_def q(2) flip: q(4))
    moreover have "frame_wf ?f" using True \<open>4 \<le> length rest\<close> by (simp add: frame_wf_def mac q(1))
    moreover have "r = record_of now len ips (flow_of ?f)" by (simp add: r flow_of_l4 q(3))
    ultimately show ?thesis by blast
  qed
qed

lemma parse_packet_returns: "parse_packet now bs len ips \<noteq> None"
proof
  assume "parse_packet now bs len ips = None"
  then show False
    unfolding parse_packet_def Let_def
    by (auto simp: bind_eq_None_conv ETHERNET_HEADER_LEN_def VLAN_ETHERNET_HEADER_LEN_def
        ipv4.returns ipv6.returns split: if_splits option.splits)
qed

section \<open>The parser is exact\<close>

text \<open>C8. \<open>parse_packet\<close> accepts exactly the byte layouts of Ethernet frames with at most one
  802.1Q or 802.1ad tag that carry TCP or UDP over IPv4 (with any options) or over IPv6, and
  the record it returns holds the addresses, ports and protocol of that frame, the captured
  length as byte count, and the direction of its addresses. On all other bytes it returns
  nothing; it never panics, for every index and slice it evaluates lies inside the frame.\<close>

theorem parse_packet_exact:
  "(parse_packet now bs len ips = Some (Some r) \<longleftrightarrow>
     (\<exists>f. frame_wf f \<and> bs = encode_frame f \<and> r = record_of now len ips (flow_of f)))
   \<and> (\<exists>result. parse_packet now bs len ips = Some result)"
  using parse_packet_accepts parse_packet_encode_frame parse_packet_returns by blast

end
