(* ===== verification/Capture_Loop.thy ===== *)
theory Capture_Loop
  imports Capture_Wire
begin

text \<open>
  The capture thread of crates/capture/src/lib.rs: its control handle, the command loop
  and the packet loop. libpcap is a parameter: \<open>pcap_filter\<close> says whether the handle
  accepts a BPF expression (\<open>Some\<close> is its error text), and each pass of the loop is
  given what \<open>next_packet\<close> returned. The messages and records the thread sends, and the
  packets it writes to the recording, are lists in the order they were sent or written.
\<close>

section \<open>Commands and the control handle\<close>

datatype capture_command = ApplyFilter string | Stop

datatype capture_error = Pcap string | ChannelSend string | ThreadJoin string

text \<open>
  \<open>cmd_queue\<close> holds the commands sent and not yet received; the channel is closed once
  the thread has dropped its receiver. \<open>join_handle\<close> is the join handle, taken by the
  first join.
\<close>

record capture_control =
  cmd_queue :: "capture_command list"
  receiver_alive :: bool
  join_handle :: "unit option"

datatype join_result = Joined | Panicked | TimedOut

definition CAPTURE_THREAD_JOIN_TIMEOUT_MSG :: string where
  "CAPTURE_THREAD_JOIN_TIMEOUT_MSG = ''capture thread join timed out''"

definition CAPTURE_THREAD_PANIC_MSG :: string where
  "CAPTURE_THREAD_PANIC_MSG = ''capture thread panicked''"

definition send_command ::
  "capture_command \<Rightarrow> capture_control \<Rightarrow> (capture_error + unit) \<times> capture_control" where
  "send_command cmd c =
     (if receiver_alive c then (Inr (), c\<lparr>cmd_queue := cmd_queue c @ [cmd]\<rparr>)
      else (Inl (ChannelSend ''sending on a closed channel''), c))"

definition apply_filter ::
  "string \<Rightarrow> capture_control \<Rightarrow> (capture_error + unit) \<times> capture_control" where
  "apply_filter expr c = send_command (ApplyFilter expr) c"

definition stop :: "capture_control \<Rightarrow> (capture_error + unit) \<times> capture_control" where
  "stop c = send_command Stop c"

definition join ::
  "join_result \<Rightarrow> capture_control \<Rightarrow> (capture_error + unit) \<times> capture_control" where
  "join res c =
     (case join_handle c of
        None \<Rightarrow> (Inr (), c)
      | Some h \<Rightarrow>
          (if res = Panicked then Inl (ThreadJoin CAPTURE_THREAD_PANIC_MSG) else Inr (),
           c\<lparr>join_handle := None\<rparr>))"

definition join_timeout ::
  "join_result \<Rightarrow> capture_control \<Rightarrow> (capture_error + unit) \<times> capture_control" where
  "join_timeout res c =
     (case join_handle c of
        None \<Rightarrow> (Inr (), c)
      | Some h \<Rightarrow>
          (case res of
             Joined \<Rightarrow> Inr ()
           | Panicked \<Rightarrow> Inl (ThreadJoin CAPTURE_THREAD_PANIC_MSG)
           | TimedOut \<Rightarrow> Inl (ThreadJoin CAPTURE_THREAD_JOIN_TIMEOUT_MSG),
           c\<lparr>join_handle := None\<rparr>))"

section \<open>The state of the thread\<close>

text \<open>
  \<open>kernel_filter\<close> is the BPF program installed on the handle, \<open>recorded\<close> the packets
  written to the savefile and \<open>flushed\<close> how many of them a flush has covered.
\<close>

record capture_state =
  commands :: "capture_command list"
  commands_open :: bool
  kernel_filter :: "string option"
  statuses :: "string list"
  sent :: "flow_record list"
  recorded :: "u8 list list"
  flushed :: nat
  packets_since_flush :: u32
  running :: bool

definition send_status :: "string \<Rightarrow> capture_state \<Rightarrow> capture_state" where
  "send_status msg s = s\<lparr>statuses := statuses s @ [msg]\<rparr>"

text \<open>
  \<open>handle_pending_commands\<close>: the received command is removed from the queue, whatever it
  is; an empty queue means \<open>Empty\<close>, or \<open>Disconnected\<close> when every sender is gone.
\<close>

fun handle_pending ::
  "(string \<Rightarrow> string option) \<Rightarrow> capture_command list \<Rightarrow> capture_state \<Rightarrow> bool \<times> capture_state" where
  "handle_pending pcap_filter [] s = (\<not> commands_open s, s\<lparr>commands := []\<rparr>)"
| "handle_pending pcap_filter (Stop # cs) s = (True, s\<lparr>commands := cs\<rparr>)"
| "handle_pending pcap_filter (ApplyFilter expr # cs) s =
     handle_pending pcap_filter cs
       (case pcap_filter expr of
          None \<Rightarrow> send_status (''Filter applied: '' @ expr) (s\<lparr>kernel_filter := Some expr\<rparr>)
        | Some error \<Rightarrow> send_status (''BPF error: '' @ error) s)"

definition handle_pending_commands ::
  "(string \<Rightarrow> string option) \<Rightarrow> capture_state \<Rightarrow> bool \<times> capture_state" where
  "handle_pending_commands pcap_filter s = handle_pending pcap_filter (commands s) s"

section \<open>The packet loop\<close>

datatype read_result = Packet "u8 list" u32 | TimeoutExpired | ReadError string

text \<open>
  What one pass of the loop meets: the commands that arrived since the last pass, whether
  the control handle and the flag are still there, the result of \<open>next_packet\<close>, whether the
  aggregator still holds its receiver, and the clock.
\<close>

record pass =
  new_commands :: "capture_command list"
  senders_alive :: bool
  flag :: bool
  read :: read_result
  flow_receiver_alive :: bool
  p_now :: instant

definition write_packet :: "bool \<Rightarrow> u8 list \<Rightarrow> capture_state \<Rightarrow> capture_state" where
  "write_packet savefile data s =
     (if \<not> savefile then s
      else let s = s\<lparr>recorded := recorded s @ [data],
                     packets_since_flush := packets_since_flush s + 1\<rparr>
        in if 100 \<le> packets_since_flush s
           then s\<lparr>flushed := length (recorded s), packets_since_flush := 0\<rparr>
           else s)"

definition final_flush :: "bool \<Rightarrow> capture_state \<Rightarrow> capture_state" where
  "final_flush savefile s = (if savefile then s\<lparr>flushed := length (recorded s)\<rparr> else s)"

definition STOPPED_MSG :: string where
  "STOPPED_MSG =
     ''Capture stopped: interface went down. Select an interface and click Start.''"

text \<open>One pass after the flag was read as true; \<open>True\<close> means the loop is left.\<close>

definition capture_pass ::
  "(string \<Rightarrow> string option) \<Rightarrow> ip_addr list \<Rightarrow> bool \<Rightarrow> pass \<Rightarrow> capture_state
   \<Rightarrow> (bool \<times> capture_state) option" where
  "capture_pass pcap_filter local_ips savefile p s =
     (let (stopped, s) = handle_pending_commands pcap_filter s in
      if stopped then Some (True, s)
      else case read p of
        Packet data len \<Rightarrow> do {
          let s = write_packet savefile data s;
          parsed \<leftarrow> parse_packet (p_now p) data len local_ips;
          (case parsed of
             None \<Rightarrow> Some (False, s)
           | Some record \<Rightarrow>
               if flow_receiver_alive p then Some (False, s\<lparr>sent := sent s @ [record]\<rparr>)
               else Some (True, s))
        }
      | TimeoutExpired \<Rightarrow> Some (False, s)
      | ReadError e \<Rightarrow> Some (True, send_status STOPPED_MSG (s\<lparr>running := False\<rparr>)))"

definition arrive :: "pass \<Rightarrow> capture_state \<Rightarrow> capture_state" where
  "arrive p s = s\<lparr>commands := commands s @ new_commands p, commands_open := senders_alive p,
                  running := running s \<and> flag p\<rparr>"

text \<open>
  The loop over the passes to come; the flag in the result says that the thread has left
  it. When the list ends first, the thread is at the head of its loop.
\<close>

fun run_capture_loop ::
  "(string \<Rightarrow> string option) \<Rightarrow> ip_addr list \<Rightarrow> bool \<Rightarrow> pass list \<Rightarrow> capture_state
   \<Rightarrow> (bool \<times> capture_state) option" where
  "run_capture_loop pcap_filter local_ips savefile [] s = Some (False, s)"
| "run_capture_loop pcap_filter local_ips savefile (p # ps) s =
     (let s = arrive p s in
      if \<not> running s then Some (True, final_flush savefile s)
      else do {
        (done, s) \<leftarrow> capture_pass pcap_filter local_ips savefile p s;
        if done then Some (True, final_flush savefile s)
        else run_capture_loop pcap_filter local_ips savefile ps s
      })"

text \<open>
  \<open>spawn_capture_thread\<close>: \<open>opened\<close> is the result of opening the device, \<open>saved\<close> that of
  creating the savefile. On success it returns the control handle, whether a recording is
  kept, and the state the thread starts its loop in.
\<close>

definition spawn_capture_thread ::
  "(string + unit) \<Rightarrow> (string + unit) \<Rightarrow> string \<Rightarrow> string option
   \<Rightarrow> capture_error + (capture_control \<times> bool \<times> capture_state)" where
  "spawn_capture_thread opened saved interface recording_path =
     (case opened of
        Inl e \<Rightarrow> Inl (Pcap e)
      | Inr _ \<Rightarrow>
          (let (savefile, msgs) =
             (case recording_path of
                None \<Rightarrow> (False, [])
              | Some path \<Rightarrow>
                  (case saved of
                     Inr _ \<Rightarrow> (True, [])
                   | Inl e \<Rightarrow> (False, [''PCAP recording disabled: '' @ e])))
           in Inr (\<lparr>cmd_queue = [], receiver_alive = True, join_handle = Some ()\<rparr>, savefile,
                \<lparr>commands = [], commands_open = True, kernel_filter = None,
                 statuses = msgs @ [''Capturing on '' @ interface @ ''...''],
                 sent = [], recorded = [], flushed = 0, packets_since_flush = 0,
                 running = True\<rparr>)))"

section \<open>Pending commands\<close>

text \<open>The filter commands ahead of the first stop, and those among them libpcap accepts.\<close>

fun filters_before_stop :: "capture_command list \<Rightarrow> string list" where
  "filters_before_stop [] = []"
| "filters_before_stop (Stop # cs) = []"
| "filters_before_stop (ApplyFilter e # cs) = e # filters_before_stop cs"

definition filter_report :: "(string \<Rightarrow> string option) \<Rightarrow> string \<Rightarrow> string" where
  "filter_report pcap_filter e =
     (case pcap_filter e of None \<Rightarrow> ''Filter applied: '' @ e | Some msg \<Rightarrow> ''BPF error: '' @ msg)"

definition last_accepted :: "(string \<Rightarrow> string option) \<Rightarrow> string list \<Rightarrow> string option \<Rightarrow> string option" where
  "last_accepted pcap_filter es old =
     fold (\<lambda>e f. if pcap_filter e = None then Some e else f) es old"

lemma handle_pending_spec:
  "handle_pending f cs s =
     (Stop \<in> set cs \<or> \<not> commands_open s,
      s\<lparr>commands := tl (dropWhile (\<lambda>c. c \<noteq> Stop) cs),
        kernel_filter := last_accepted f (filters_before_stop cs) (kernel_filter s),
        statuses := statuses s @ map (filter_report f) (filters_before_stop cs)\<rparr>)"
proof (induction cs arbitrary: s rule: filters_before_stop.induct)
  case (3 e cs)
  then show ?case
    by (cases "f e") (simp_all add: last_accepted_def filter_report_def send_status_def)
qed (simp_all add: last_accepted_def)

lemma handle_pending_frame:
  "sent (snd (handle_pending_commands f s)) = sent s"
  "recorded (snd (handle_pending_commands f s)) = recorded s"
  "flushed (snd (handle_pending_commands f s)) = flushed s"
  "packets_since_flush (snd (handle_pending_commands f s)) = packets_since_flush s"
  "running (snd (handle_pending_commands f s)) = running s"
  "commands_open (snd (handle_pending_commands f s)) = commands_open s"
  by (simp_all add: handle_pending_commands_def handle_pending_spec)

lemma handle_pending_stops:
  "fst (handle_pending_commands f s) \<longleftrightarrow> Stop \<in> set (commands s) \<or> \<not> commands_open s"
  by (simp add: handle_pending_commands_def handle_pending_spec)

lemma drop_to_stop: "Stop \<notin> set cs \<Longrightarrow> dropWhile (\<lambda>c. c \<noteq> Stop) cs = []"
  by (induction cs) auto

lemma handle_pending_drained:
  "\<not> fst (handle_pending_commands f s) \<Longrightarrow> commands (snd (handle_pending_commands f s)) = []"
  by (subst (asm) handle_pending_stops)
     (auto simp: handle_pending_commands_def handle_pending_spec drop_to_stop)

section \<open>The recording\<close>

text \<open>Between flushes at most 99 packets are unflushed, and the counter says how many.\<close>

definition recording_inv :: "bool \<Rightarrow> capture_state \<Rightarrow> bool" where
  "recording_inv savefile s \<longleftrightarrow> packets_since_flush s < 100
     \<and> (if savefile then length (recorded s) = flushed s + unat (packets_since_flush s)
        else recorded s = [] \<and> packets_since_flush s = 0)"

lemma recording_inv_cong:
  "recorded s' = recorded s \<Longrightarrow> flushed s' = flushed s
   \<Longrightarrow> packets_since_flush s' = packets_since_flush s
   \<Longrightarrow> recording_inv v s' = recording_inv v s"
  by (simp add: recording_inv_def)

lemma write_packet_inv:
  assumes "recording_inv v s"
  shows "recording_inv v (write_packet v data s)"
proof (cases v)
  case True
  from assms have lt: "unat (packets_since_flush s) < 100"
    by (simp add: recording_inv_def word_less_nat_alt)
  then have "unat (packets_since_flush s + 1) = Suc (unat (packets_since_flush s))"
    by (simp add: unat_word_ariths)
  with True assms lt show ?thesis
    by (auto simp: write_packet_def recording_inv_def Let_def word_le_nat_alt word_less_nat_alt)
qed (use assms in \<open>simp add: write_packet_def\<close>)

lemma write_packet_frame:
  "sent (write_packet v data s) = sent s" "commands (write_packet v data s) = commands s"
  "running (write_packet v data s) = running s"
  "commands_open (write_packet v data s) = commands_open s"
  "kernel_filter (write_packet v data s) = kernel_filter s"
  by (simp_all add: write_packet_def Let_def)

lemma capture_pass_inv:
  assumes "recording_inv v s" and "capture_pass f ips v p s = Some (d, s')"
  shows "recording_inv v s'"
proof -
  let ?s = "snd (handle_pending_commands f s)"
  have inv: "recording_inv v ?s"
    using assms(1) by (simp add: recording_inv_def handle_pending_frame)
  show ?thesis
  proof (cases "read p")
    case (Packet data len)
    have "recording_inv v (write_packet v data ?s)" using inv by (rule write_packet_inv)
    with Packet assms(2) inv show ?thesis
      by (auto simp: capture_pass_def Let_def bind_eq_Some_conv recording_inv_def
          split: prod.splits if_splits option.splits)
  qed (use assms(2) inv in \<open>auto simp: capture_pass_def send_status_def recording_inv_def
          split: prod.splits if_splits\<close>)
qed

lemma arrive_inv: "recording_inv v (arrive p s) = recording_inv v s"
  by (simp add: arrive_def recording_inv_def)

lemma final_flush_inv: "recording_inv v s \<Longrightarrow> flushed (final_flush v s) = (if v then length (recorded s) else flushed s)"
  by (simp add: final_flush_def)

lemma run_capture_loop_recording:
  "recording_inv v s \<Longrightarrow> run_capture_loop f ips v ps s = Some (d, s') \<Longrightarrow>
     (if d then v \<longrightarrow> flushed s' = length (recorded s') else recording_inv v s')"
proof (induction ps arbitrary: s)
  case Nil
  then show ?case by simp
next
  case (Cons p ps)
  have inv: "recording_inv v (arrive p s)" using Cons.prems(1) by (simp add: arrive_inv)
  show ?case
  proof (cases "running (arrive p s)")
    case True
    with Cons.prems(2) obtain e t where e: "capture_pass f ips v p (arrive p s) = Some (e, t)"
      and rest: "if e then d \<and> s' = final_flush v t else run_capture_loop f ips v ps t = Some (d, s')"
      by (auto simp: Let_def bind_eq_Some_conv split: if_splits)
    from capture_pass_inv [OF inv e] rest Cons.IH [of t] show ?thesis
      by (auto simp: final_flush_def split: if_splits)
  next
    case False
    with Cons.prems(2) show ?thesis by (auto simp: final_flush_def Let_def)
  qed
qed

section \<open>What is sent to the aggregator\<close>

definition parsed_of :: "ip_addr list \<Rightarrow> pass \<Rightarrow> flow_record list" where
  "parsed_of ips p =
     (case read p of
        Packet data len \<Rightarrow>
          (case parse_packet (p_now p) data len ips of Some (Some r) \<Rightarrow> [r] | _ \<Rightarrow> [])
      | _ \<Rightarrow> [])"

text \<open>The passes at which the loop is left, when nothing was pending before.\<close>

definition leaves_at :: "ip_addr list \<Rightarrow> pass \<Rightarrow> bool" where
  "leaves_at ips p \<longleftrightarrow> \<not> flag p \<or> \<not> senders_alive p \<or> Stop \<in> set (new_commands p)
     \<or> (\<exists>e. read p = ReadError e) \<or> (parsed_of ips p \<noteq> [] \<and> \<not> flow_receiver_alive p)"

text \<open>A pass is total, and reads as follows once the panic-free parser is factored out.\<close>

definition after_commands ::
  "ip_addr list \<Rightarrow> bool \<Rightarrow> pass \<Rightarrow> capture_state \<Rightarrow> bool \<times> capture_state" where
  "after_commands ips v p s =
     (case read p of
        Packet data len \<Rightarrow>
          (let s = write_packet v data s in
           if parsed_of ips p = [] then (False, s)
           else if flow_receiver_alive p then (False, s\<lparr>sent := sent s @ parsed_of ips p\<rparr>)
           else (True, s))
      | TimeoutExpired \<Rightarrow> (False, s)
      | ReadError e \<Rightarrow> (True, send_status STOPPED_MSG (s\<lparr>running := False\<rparr>)))"

lemma capture_pass_total:
  "capture_pass f ips v p s = Some
     (if fst (handle_pending_commands f s) then (True, snd (handle_pending_commands f s))
      else after_commands ips v p (snd (handle_pending_commands f s)))"
proof -
  obtain stopped s1 where h: "handle_pending_commands f s = (stopped, s1)" by fastforce
  show ?thesis
  proof (cases "read p")
    case (Packet data len)
    obtain r where r: "parse_packet (p_now p) data len ips = Some r"
      using parse_packet_returns by blast
    show ?thesis
      by (cases r) (simp_all add: capture_pass_def after_commands_def parsed_of_def h Packet r Let_def)
  qed (simp_all add: capture_pass_def after_commands_def h)
qed

lemma after_commands_frame:
  assumes "after_commands ips v p s = (d, s')"
  shows "sent s' = sent s @ (if d then [] else parsed_of ips p)"
    and "d \<longleftrightarrow> (\<exists>e. read p = ReadError e) \<or> (parsed_of ips p \<noteq> [] \<and> \<not> flow_receiver_alive p)"
    and "\<not> d \<Longrightarrow> running s' = running s \<and> commands s' = commands s"
  using assms
  by (auto simp: after_commands_def parsed_of_def write_packet_frame send_status_def Let_def
      split: read_result.splits if_splits)

lemma capture_pass_spec:
  assumes idle: "commands s = []" and pass: "capture_pass f ips v p (arrive p s) = Some (d, s')"
  shows "running (arrive p s) \<longrightarrow> d = leaves_at ips p"
    and "sent s' = sent s @ (if d then [] else parsed_of ips p)"
    and "\<not> d \<Longrightarrow> running s' = running (arrive p s) \<and> commands s' = []"
proof -
  let ?h = "handle_pending_commands f (arrive p s)"
  have stops: "fst ?h \<longleftrightarrow> Stop \<in> set (new_commands p) \<or> \<not> senders_alive p"
    using idle by (simp add: handle_pending_stops arrive_def)
  have frame: "sent (snd ?h) = sent s" "running (snd ?h) = running (arrive p s)"
    by (simp_all add: handle_pending_frame arrive_def)
  have "(running (arrive p s) \<longrightarrow> d = leaves_at ips p)
     \<and> sent s' = sent s @ (if d then [] else parsed_of ips p)
     \<and> (\<not> d \<longrightarrow> running s' = running (arrive p s) \<and> commands s' = [])"
  proof (cases "fst ?h")
    case True
    with pass have "d" "s' = snd ?h" by (simp_all add: capture_pass_total)
    with True stops frame show ?thesis by (auto simp: leaves_at_def)
  next
    case False
    with pass have "after_commands ips v p (snd ?h) = (d, s')" by (simp add: capture_pass_total)
    note after = after_commands_frame [OF this]
    have "running (arrive p s) \<longrightarrow> flag p" by (simp add: arrive_def)
    with after False stops frame handle_pending_drained [OF False] show ?thesis
      by (auto simp: leaves_at_def)
  qed
  then show "running (arrive p s) \<longrightarrow> d = leaves_at ips p"
    and "sent s' = sent s @ (if d then [] else parsed_of ips p)"
    and "\<not> d \<Longrightarrow> running s' = running (arrive p s) \<and> commands s' = []" by blast+
qed

lemma run_capture_loop_sent:
  "running s \<Longrightarrow> commands s = [] \<Longrightarrow>
   \<exists>s'. run_capture_loop f ips v ps s = Some (\<exists>p \<in> set ps. leaves_at ips p, s')
     \<and> sent s' = sent s @ concat (map (parsed_of ips) (takeWhile (\<lambda>p. \<not> leaves_at ips p) ps))"
proof (induction ps arbitrary: s)
  case Nil
  then show ?case by simp
next
  case (Cons p ps)
  show ?case
  proof (cases "running (arrive p s)")
    case False
    with Cons.prems have "leaves_at ips p" by (simp add: arrive_def leaves_at_def)
    with False show ?thesis by (simp add: Let_def final_flush_def arrive_def)
  next
    case True
    obtain d t where pass: "capture_pass f ips v p (arrive p s) = Some (d, t)"
      by (simp add: capture_pass_total) (metis surj_pair)
    note spec = capture_pass_spec [OF Cons.prems(2) pass]
    show ?thesis
    proof (cases d)
      case True
      with spec \<open>running (arrive p s)\<close> pass show ?thesis
        by (simp add: Let_def final_flush_def)
    next
      case False
      with spec Cons.IH [of t] \<open>running (arrive p s)\<close> pass show ?thesis
        by (auto simp: Let_def)
    qed
  qed
qed

section \<open>Correctness of the thread\<close>

definition fresh :: "capture_state \<Rightarrow> bool" where
  "fresh s \<longleftrightarrow> running s \<and> commands s = [] \<and> sent s = [] \<and> recorded s = [] \<and> flushed s = 0
     \<and> packets_since_flush s = 0"

lemma spawn_fresh: "spawn_capture_thread op sv i path = Inr (c, v, s) \<Longrightarrow> fresh s"
  by (auto simp: spawn_capture_thread_def fresh_def split: sum.splits option.splits prod.splits)

text \<open>A run for the witnesses: one DNS query over IPv4, then the interface goes down.\<close>

definition dns_frame :: "u8 list" where
  "dns_frame = [0, 0, 0, 0, 0, 0, 0, 0, 0, 0, 0, 0, 8, 0, 0x45, 0, 0, 28, 0, 0, 0, 0, 64, 17,
     0, 0, 10, 0, 2, 15, 8, 8, 8, 8, 0xD4, 0x31, 0, 53, 0, 8, 0, 0]"

definition dns_key :: flow_key where
  "dns_key = \<lparr>src_ip = V4 10 0 2 15, dst_ip = V4 8 8 8 8, src_port = 54321, dst_port = 53,
     fk_protocol = Udp\<rparr>"

definition quiet_pass :: "read_result \<Rightarrow> pass" where
  "quiet_pass r = \<lparr>new_commands = [], senders_alive = True, flag = True, read = r,
     flow_receiver_alive = True, p_now = 7\<rparr>"

definition eth0_start :: capture_state where
  "eth0_start = \<lparr>commands = [], commands_open = True, kernel_filter = None,
     statuses = [''Capturing on eth0...''], sent = [], recorded = [], flushed = 0,
     packets_since_flush = 0, running = True\<rparr>"

lemma spawn_eth0:
  "spawn_capture_thread (Inr ()) (Inr ()) ''eth0'' path =
     Inr (\<lparr>cmd_queue = [], receiver_alive = True, join_handle = Some ()\<rparr>, path \<noteq> None, eth0_start)"
  by (cases path) (simp_all add: spawn_capture_thread_def eth0_start_def)

lemma dns_pass:
  "parsed_of [] (quiet_pass (Packet dns_frame 42)) =
     [\<lparr>fr_key = dns_key, byte_count = 42, timestamp = 7, fr_direction = Tx\<rparr>]"
  by (simp add: parsed_of_def quiet_pass_def dns_frame_def dns_key_def parse_packet_def parse_ipv4_def
      idx_def Let_def capture_consts u16_from_be_bytes_def protocol_from_num_def
      classify_direction_def)

lemma leaves_dns: "\<not> leaves_at [] (quiet_pass (Packet dns_frame 42))"
  by (simp add: leaves_at_def) (simp add: quiet_pass_def)

lemma leaves_down: "leaves_at [] (quiet_pass (ReadError e))"
  by (simp add: leaves_at_def quiet_pass_def)

text \<open>C14. From the state it is spawned in, the capture thread never panics, sends the
  aggregator the parsed records of its packets in order, each exactly once and none else,
  and leaves its loop at the first pass where the flag is cleared, the control handle is
  dropped, a stop command arrives, the device fails or the aggregator is gone.\<close>

theorem capture_loop_sends_in_order:
  assumes "spawn_capture_thread opened saved interface path = Inr (c, v, s)"
  shows "\<exists>s'. run_capture_loop f ips v ps s = Some (\<exists>p \<in> set ps. leaves_at ips p, s')
     \<and> sent s' = concat (map (parsed_of ips) (takeWhile (\<lambda>p. \<not> leaves_at ips p) ps))"
  using run_capture_loop_sent [of s f ips v ps] spawn_fresh [OF assms] by (simp add: fresh_def)

theorem capture_loop_sends_in_order_witness:
  "\<exists>s'. run_capture_loop (\<lambda>_. None) [] False
       [quiet_pass (Packet dns_frame 42), quiet_pass (ReadError ''down'')] eth0_start = Some (True, s')
     \<and> sent s' = [\<lparr>fr_key = dns_key, byte_count = 42, timestamp = 7, fr_direction = Tx\<rparr>]"
  using capture_loop_sends_in_order [OF spawn_eth0 [of None], of "\<lambda>_. None" "[]"
      "[quiet_pass (Packet dns_frame 42), quiet_pass (ReadError ''down'')]"]
  by (simp add: dns_pass leaves_dns leaves_down del: run_capture_loop.simps)



text \<open>Draining the command channel applies the filters ahead of the first stop one by
  one: the installed filter is the last one libpcap accepted (a rejected expression leaves
  the old filter in place), every one of them is answered on the status channel in order,
  and the thread stops exactly when a stop is pending or the control handle is gone.\<close>

theorem pending_commands_filter:
  "handle_pending_commands f s =
     (Stop \<in> set (commands s) \<or> commands_open s = False,
      s\<lparr>commands := tl (dropWhile (\<lambda>c. c \<noteq> Stop) (commands s)),
        kernel_filter := last_accepted f (filters_before_stop (commands s)) (kernel_filter s),
        statuses := statuses s @ map (filter_report f) (filters_before_stop (commands s))\<rparr>)"
  by (simp add: handle_pending_commands_def handle_pending_spec)

end
