(* ===== verification/Rust_Sort.thy ===== *)
theory Rust_Sort
  imports Rust_Text "HOL-Library.List_Lexorder" "HOL-Library.Char_ord"
begin

text \<open>
  \<open>std::cmp::Ordering\<close> and the stable sorts \<open>sort_by\<close> and \<open>sort_by_key\<close> of Rust's slices.
  Strings are compared byte by byte, as the lexicographic order of lists. The locale
  \<open>total_cmp\<close> states what a comparison function has to satisfy for a sort to be meaningful,
  and shows that the sorted slice is an ordered permutation in which equal elements keep
  their order, and the only one.
\<close>

section \<open>Comparisons\<close>

datatype ordering = Less | Equal | Greater

fun reverse :: "ordering \<Rightarrow> ordering" where
  "reverse Less = Greater"
| "reverse Equal = Equal"
| "reverse Greater = Less"

fun then_cmp :: "ordering \<Rightarrow> ordering \<Rightarrow> ordering" where
  "then_cmp Equal o2 = o2"
| "then_cmp o1 o2 = o1"

definition cmp_ord :: "'a::linorder \<Rightarrow> 'a \<Rightarrow> ordering" where
  "cmp_ord a b = (if a < b then Less else if a = b then Equal else Greater)"

lemma reverse_reverse [simp]: "reverse (reverse c) = c"
  by (cases c) simp_all

lemma reverse_Equal_iff [simp]: "reverse c = Equal \<longleftrightarrow> c = Equal"
  by (cases c) simp_all

lemma cmp_ord_iff [simp]:
  "cmp_ord a b = Less \<longleftrightarrow> a < b" "cmp_ord a b = Equal \<longleftrightarrow> a = b" "cmp_ord a b = Greater \<longleftrightarrow> b < a"
  by (auto simp: cmp_ord_def)

lemma cmp_ord_swap: "cmp_ord b a = reverse (cmp_ord a b)"
  by (auto simp: cmp_ord_def)

lemma then_cmp_Greater [simp]: "then_cmp a b = Greater \<longleftrightarrow> a = Greater \<or> (a = Equal \<and> b = Greater)"
  by (cases a) simp_all

lemma then_cmp_Equal [simp]: "then_cmp a b = Equal \<longleftrightarrow> a = Equal \<and> b = Equal"
  by (cases a) simp_all

lemma then_cmp_swap: "reverse (then_cmp a b) = then_cmp (reverse a) (reverse b)"
  by (cases a) simp_all

section \<open>Stable sorting\<close>

fun insert_by :: "('a \<Rightarrow> 'a \<Rightarrow> ordering) \<Rightarrow> 'a \<Rightarrow> 'a list \<Rightarrow> 'a list" where
  "insert_by cmp x [] = [x]"
| "insert_by cmp x (y # ys) =
     (if cmp x y = Greater then y # insert_by cmp x ys else x # y # ys)"

definition sort_by :: "('a \<Rightarrow> 'a \<Rightarrow> ordering) \<Rightarrow> 'a list \<Rightarrow> 'a list" where
  "sort_by cmp xs = foldr (insert_by cmp) xs []"

lemma sort_by_simps [simp]:
  "sort_by cmp [] = []" "sort_by cmp (x # xs) = insert_by cmp x (sort_by cmp xs)"
  by (simp_all add: sort_by_def)

lemma mset_insert_by [simp]: "mset (insert_by cmp x ys) = add_mset x (mset ys)"
  by (induction ys) auto

lemma set_insert_by: "set (insert_by cmp x ys) = insert x (set ys)"
  by (induction ys) auto

lemma mset_sort_by [simp]: "mset (sort_by cmp xs) = mset xs"
  by (induction xs) simp_all

lemma set_sort_by [simp]: "set (sort_by cmp xs) = set xs"
  using mset_sort_by by (metis set_mset_mset)

lemma length_sort_by [simp]: "length (sort_by cmp xs) = length xs"
  using mset_sort_by by (metis size_mset)

locale total_cmp =
  fixes cmp :: "'a \<Rightarrow> 'a \<Rightarrow> ordering"
  assumes swap: "cmp y x = reverse (cmp x y)"
    and trans: "cmp x y \<noteq> Greater \<Longrightarrow> cmp y z \<noteq> Greater \<Longrightarrow> cmp x z \<noteq> Greater"
begin

definition ordered :: "'a list \<Rightarrow> bool" where
  "ordered xs \<longleftrightarrow> sorted_wrt (\<lambda>x y. cmp x y \<noteq> Greater) xs"

definition ties :: "'a \<Rightarrow> 'a list \<Rightarrow> 'a list" where
  "ties x ys = filter (\<lambda>y. cmp x y = Equal) ys"

lemma refl: "cmp x x = Equal"
  using swap [of x x] by (cases "cmp x x") simp_all

lemma Equal_swap: "cmp x y = Equal \<longleftrightarrow> cmp y x = Equal"
  by (simp add: swap [of x y])

lemma not_Greater_swap: "cmp x y = Greater \<Longrightarrow> cmp y x = Less"
  by (simp add: swap [of y x])

lemma Equal_trans: "cmp x y = Equal \<Longrightarrow> cmp y z = Equal \<Longrightarrow> cmp x z = Equal"
  using trans [of x y z] trans [of z y x] swap [of z x] swap [of y x] swap [of z y]
  by (cases "cmp x z") simp_all

lemma ordered_insert_by: "ordered ys \<Longrightarrow> ordered (insert_by cmp x ys)"
proof (induction ys)
  case Nil
  then show ?case by (simp add: ordered_def)
next
  case (Cons y ys)
  show ?case
  proof (cases "cmp x y = Greater")
    case True
    with Cons show ?thesis
      by (auto simp: ordered_def not_Greater_swap set_insert_by)
  next
    case False
    with Cons trans show ?thesis by (auto simp: ordered_def)
  qed
qed

lemma ordered_sort_by: "ordered (sort_by cmp xs)"
  by (induction xs) (simp_all add: ordered_insert_by, simp add: ordered_def)

lemma ties_insert_by: "ties z (insert_by cmp x ys) = ties z (x # ys)"
proof (induction ys)
  case Nil
  then show ?case by (simp add: ties_def)
next
  case (Cons y ys)
  show ?case
  proof (cases "cmp x y = Greater")
    case True
    then have "\<not> (cmp z x = Equal \<and> cmp z y = Equal)"
      using Equal_swap Equal_trans by force
    with True Cons show ?thesis by (auto simp: ties_def)
  next
    case False
    then show ?thesis by (simp add: ties_def)
  qed
qed

lemma ties_sort_by: "ties z (sort_by cmp xs) = ties z xs"
  by (induction xs) (simp_all add: ties_insert_by, simp_all add: ties_def)

text \<open>Any other ordered list with the same ties is this one, whatever the algorithm.\<close>

lemma ordered_unique:
  assumes "ordered xs" and "ordered ys" and "\<And>z. ties z xs = ties z ys"
  shows "xs = ys"
  using assms
proof (induction xs arbitrary: ys)
  case Nil
  then have "ties (hd ys) ys = []" by (metis ties_def filter.simps(1))
  then show ?case using refl by (cases ys) (simp_all add: ties_def)
next
  case (Cons x xs)
  have "x \<in> set (ties x (x # xs))" by (simp add: ties_def refl)
  with Cons.prems(3) have "x \<in> set ys" by (auto simp: ties_def)
  then obtain y ys' where ys: "ys = y # ys'" by (cases ys) auto
  have "y \<in> set (ties y ys)" by (simp add: ys ties_def refl)
  then have "y \<in> set (ties y (x # xs))" using Cons.prems(3) [of y] by simp
  then have "y \<in> set (x # xs)" by (simp only: ties_def set_filter mem_Collect_eq)
  then have "cmp x y \<noteq> Greater" using Cons.prems(1) by (auto simp: ordered_def refl)
  moreover have "cmp y x \<noteq> Greater"
    using \<open>x \<in> set ys\<close> Cons.prems(2) by (auto simp: ys ordered_def refl)
  ultimately have "cmp x y = Equal"
    using swap [of y x] by (cases "cmp x y") simp_all
  with Cons.prems(3) [of x] have "x = y" by (simp add: ties_def ys refl)
  have "ties z xs = ties z ys'" for z
    using Cons.prems(3) [of z] by (simp add: ys \<open>x = y\<close> ties_def split: if_splits)
  with Cons.IH [of ys'] Cons.prems(1,2) show ?case
    by (simp add: ys \<open>x = y\<close> ordered_def)
qed

end

section \<open>Comparisons that can be sorted by\<close>

lemma total_cmp_key: "total_cmp (\<lambda>a b. cmp_ord (f a) (f b))"
  by unfold_locales (auto simp: cmp_ord_def split: if_splits)

lemma total_cmp_reverse:
  assumes "total_cmp cmp"
  shows "total_cmp (\<lambda>a b. reverse (cmp a b))"
proof -
  note swap = total_cmp.swap [OF assms] and trans = total_cmp.trans [OF assms]
  have g: "reverse (cmp x y) \<noteq> Greater \<longleftrightarrow> cmp y x \<noteq> Greater" for x y
    using swap [of y x] by (cases "cmp x y") simp_all
  show ?thesis
  proof
    show "reverse (cmp y x) = reverse (reverse (cmp x y))" for x y using swap [of x y] by simp
    show "reverse (cmp x z) \<noteq> Greater" if "reverse (cmp x y) \<noteq> Greater" "reverse (cmp y z) \<noteq> Greater" for x y z
      using that trans unfolding g by blast
  qed
qed

lemma total_cmp_then:
  assumes c: "total_cmp c" and d: "total_cmp d"
  shows "total_cmp (\<lambda>a b. then_cmp (c a b) (d a b))"
proof
  show "then_cmp (c y x) (d y x) = reverse (then_cmp (c x y) (d x y))" for x y
    using total_cmp.swap [OF c, of y x] total_cmp.swap [OF d, of y x] by (simp add: then_cmp_swap)
  fix x y z assume xy: "then_cmp (c x y) (d x y) \<noteq> Greater" and yz: "then_cmp (c y z) (d y z) \<noteq> Greater"
  then have g: "c x y \<noteq> Greater" "c y z \<noteq> Greater" by auto
  have "d x z \<noteq> Greater" if "c x z = Equal"
  proof -
    have "c z x = Equal" using that total_cmp.Equal_swap [OF c] by blast
    then have "c y x \<noteq> Greater" "c z y \<noteq> Greater"
      using g total_cmp.trans [OF c, of y z x] total_cmp.trans [OF c, of z x y] by simp_all
    then have "c x y = Equal"
      using g total_cmp.swap [OF c, of y x] by (cases "c x y") simp_all
    moreover have "c y z = Equal"
      using g \<open>c z y \<noteq> Greater\<close> total_cmp.swap [OF c, of z y] by (cases "c y z") simp_all
    ultimately have "c x y = Equal" "c y z = Equal" by simp_all
    with xy yz total_cmp.trans [OF d, of x y z] show ?thesis by simp
  qed
  with g total_cmp.trans [OF c, of x y z] show "then_cmp (c x z) (d x z) \<noteq> Greater" by simp
qed

end
