(* ===== verification/Gui.thy ===== *)
theory Gui
  imports Aggregator_Views Capture_Loop Controller Rust_Sort
begin

text \<open>
  The application of crates/gui/src/main.rs: its state, the operations its buttons and menus
  call, the drain of the status channel at the start of each frame, and shutdown. Drawing is
  left out: a widget is the event it reports, with the guards under which it is on screen.
  The operating system (files, clock, libpcap, joins) is a record of parameters, nft the
  parameter of the controller. Text that the user interface only displays as a
  floating-point number is left out too.
\<close>

section \<open>Constants and data\<close>

definition CHART_HISTORY_SECONDS :: nat where "CHART_HISTORY_SECONDS = 300"
definition SHORT_RATE_WINDOW_SECONDS :: nat where "SHORT_RATE_WINDOW_SECONDS = 2"
definition DEFAULT_CHART_WINDOW_SECONDS :: nat where "DEFAULT_CHART_WINDOW_SECONDS = 60"
definition HIGH_TRAFFIC_THRESHOLD_BYTES_PER_SEC :: u64 where
  "HIGH_TRAFFIC_THRESHOLD_BYTES_PER_SEC = 1024 * 1024"
definition VERY_HIGH_TRAFFIC_THRESHOLD_BYTES_PER_SEC :: u64 where
  "VERY_HIGH_TRAFFIC_THRESHOLD_BYTES_PER_SEC = 10 * 1024 * 1024"
definition PCAP_SESSION_PREFIX :: string where "PCAP_SESSION_PREFIX = ''netmon_capture_''"
definition PCAP_EXPORT_PREFIX :: string where "PCAP_EXPORT_PREFIX = ''netmon_export_''"

datatype sort_column = Pid | Tid | Process | Thread | User | ProtocolMix | TxRate | RxRate
  | TxTotal | RxTotal

text \<open>
  A capture thread the application has spawned: the stop flag it polls, the addresses it was
  given, whether it records, and the state it starts its loop in. A flag is an
  \<open>Arc<AtomicBool>\<close> shared by the application and one thread; it is an index into the list
  of the flags allocated so far.
\<close>

record capture_thread =
  th_flag :: nat
  th_local_ips :: "ip_addr list"
  th_savefile :: bool
  th_start :: capture_state

text \<open>
  \<open>NetmonApp\<close>. \<open>shared\<close> holds the snapshots behind their locks, which the aggregator also
  holds; \<open>flags\<close> and \<open>spawned\<close> are the flags allocated and the threads started so far;
  \<open>ctl\<close> is the state of the controller crate and of the packet filter.
\<close>

record 'n netmon_app =
  devices :: "string list"
  selected_iface :: nat
  app_capture :: "capture_control option"
  capture_running :: nat
  app_running :: bool
  app_aggregator :: "aggregator_control option"
  shared :: agg_shared
  status_rx :: "string list"
  selected_thread :: "thread_key option"
  sort_column :: sort_column
  sort_ascending :: bool
  is_capturing :: bool
  bpf_input :: string
  show_bits :: bool
  active_filter :: string
  chart_window_seconds :: nat
  rate_limit_kbps_input :: string
  capture_recording_path :: "string option"
  pending_block :: "(u32 \<times> string) option"
  virtualization_warning :: bool
  flags :: "bool list"
  spawned :: "capture_thread list"
  ctl :: "'n controller"

text \<open>
  What the operating system answers: opening a device and creating the savefile, how the
  joins of the two threads end, the wall clock, environment variables and files, creating a
  file (\<open>Some\<close> is the error), how many writes to it succeed, whether a path exists, and
  copying a file.
\<close>

record os =
  os_open :: "string \<Rightarrow> string + unit"
  os_savefile :: "string \<Rightarrow> string + unit"
  os_join :: join_result
  os_agg_join :: thread_end
  os_unix :: u64
  os_env_var :: "string \<Rightarrow> string option"
  os_read :: "string \<Rightarrow> string option"
  os_create :: "string \<Rightarrow> string option"
  os_writes :: nat
  os_exists :: "string \<Rightarrow> bool"
  os_copy :: "string \<Rightarrow> string \<Rightarrow> string option"

section \<open>Small helpers\<close>

definition gui_two_second_avg :: "history \<Rightarrow> u64" where
  "gui_two_second_avg h =
     sum_list (take SHORT_RATE_WINDOW_SECONDS h) div of_nat SHORT_RATE_WINDOW_SECONDS"

definition format_protocol :: "protocol \<Rightarrow> string" where
  "format_protocol p = (case p of Tcp \<Rightarrow> ''TCP'' | Udp \<Rightarrow> ''UDP'' | Other n \<Rightarrow> ''OTHER'')"

definition count_protocol :: "connection_entry \<Rightarrow> u32 \<times> u32 \<times> u32 \<Rightarrow> u32 \<times> u32 \<times> u32" where
  "count_protocol conn = (\<lambda>(tcp, udp, other).
     case ce_protocol conn of
       Tcp \<Rightarrow> (tcp + 1, udp, other) | Udp \<Rightarrow> (tcp, udp + 1, other) | Other n \<Rightarrow> (tcp, udp, other + 1))"

definition protocol_mix_summary :: "process_row \<Rightarrow> string" where
  "protocol_mix_summary row =
     (let (tcp, udp, other) = fold count_protocol (pr_connections row) (0, 0, 0)
      in ''T:'' @ show_word tcp @ '' U:'' @ show_word udp @ '' O:'' @ show_word other)"

definition gui_sanitize_csv :: "string \<Rightarrow> string" where
  "gui_sanitize_csv v = replace_char (CHR '','') (CHR '' '') (replace_char (CHR 0x22) (CHR 0x27) v)"

definition detect_virtualbox :: "(string \<Rightarrow> string option) \<Rightarrow> bool" where
  "detect_virtualbox read_to_string =
     (let text = (\<lambda>path. case read_to_string path of Some t \<Rightarrow> to_lowercase t | None \<Rightarrow> '''');
          host = text ''/proc/sys/kernel/hostname'';
          product = text ''/sys/class/dmi/id/product_name''
      in contains ''vbox'' host \<or> contains ''virtualbox'' product)"

fun home_of_passwd :: "string \<Rightarrow> string list \<Rightarrow> string option" where
  "home_of_passwd sudo_user [] = None"
| "home_of_passwd sudo_user (line # lines) =
     (let cols = split_by (\<lambda>c. c = CHR '':'') line in
      if 6 \<le> length cols \<and> cols ! 0 = sudo_user then Some (cols ! 5)
      else home_of_passwd sudo_user lines)"

definition user_home :: "os \<Rightarrow> string" where
  "user_home os =
     (let home = (case os_env_var os ''HOME'' of Some h \<Rightarrow> h | None \<Rightarrow> ''/tmp'') in
      case os_env_var os ''SUDO_USER'' of
        None \<Rightarrow> home
      | Some sudo_user \<Rightarrow>
          (case os_read os ''/etc/passwd'' of
             None \<Rightarrow> home
           | Some passwd \<Rightarrow>
               (case home_of_passwd sudo_user (str_lines passwd) of Some h \<Rightarrow> h | None \<Rightarrow> home)))"

section \<open>Privileges\<close>

definition has_required_capabilities :: "(string \<Rightarrow> string option) \<Rightarrow> bool" where
  "has_required_capabilities read_to_string =
     (case read_to_string ''/proc/self/status'' of
        None \<Rightarrow> False
      | Some status \<Rightarrow>
          (case find (starts_with ''CapEff:'') (str_lines status) of
             None \<Rightarrow> False
           | Some line \<Rightarrow>
               (case split_whitespace line of
                  _ # cap_eff_hex # _ \<Rightarrow>
                    (case from_str_radix 16 cap_eff_hex of
                       None \<Rightarrow> False
                     | Some (cap_eff :: u64) \<Rightarrow>
                         (let cap_net_admin = push_bit 12 1; cap_net_raw = push_bit 13 1 in
                          cap_eff AND cap_net_admin \<noteq> 0 \<and> cap_eff AND cap_net_raw \<noteq> 0))
                | _ \<Rightarrow> False)))"

text \<open>\<open>Some\<close> is the exit code.\<close>

definition ensure_privileges_or_exit :: "bool \<Rightarrow> (string \<Rightarrow> string option) \<Rightarrow> nat option" where
  "ensure_privileges_or_exit is_root read_to_string =
     (if is_root \<or> has_required_capabilities read_to_string then None else Some 1)"

section \<open>Building the application\<close>

definition app_new :: "os \<Rightarrow> string list option \<Rightarrow> 'n controller \<Rightarrow> 'n netmon_app" where
  "app_new os device_list c = \<lparr>
     devices = (case device_list of Some ds \<Rightarrow> ds | None \<Rightarrow> []), selected_iface = 0,
     app_capture = None, capture_running = 0, app_running = True,
     app_aggregator = Some \<lparr>ag_join_handle = Some ()\<rparr>,
     shared = \<lparr>sh_rows = Unpoisoned [], sh_interface = Unpoisoned interface_stats_default,
       sh_status = Unpoisoned ''Ready'', sh_blocked = Unpoisoned {}, sh_history = Unpoisoned []\<rparr>,
     status_rx = [], selected_thread = None, sort_column = Pid, sort_ascending = True,
     is_capturing = False, bpf_input = '''', show_bits = False, active_filter = '''',
     chart_window_seconds = DEFAULT_CHART_WINDOW_SECONDS, rate_limit_kbps_input = ''1024'',
     capture_recording_path = None, pending_block = None,
     virtualization_warning = detect_virtualbox (os_read os),
     flags = [False], spawned = [], ctl = c\<rparr>"

text \<open>\<open>main\<close> up to the first frame: an exit code, or the application.\<close>

definition start_app ::
  "'n nft_cli \<Rightarrow> os \<Rightarrow> bool \<Rightarrow> string list option \<Rightarrow> 'n controller \<Rightarrow> nat + 'n netmon_app" where
  "start_app nft os is_root device_list c =
     (case ensure_privileges_or_exit is_root (os_read os) of
        Some code \<Rightarrow> Inl code
      | None \<Rightarrow> Inr (app_new os device_list (snd (setup_nftables nft c))))"

section \<open>Capture\<close>

definition set_status :: "string \<Rightarrow> 'n netmon_app \<Rightarrow> 'n netmon_app" where
  "set_status msg a = a\<lparr>shared := (shared a)\<lparr>sh_status := lock_write (\<lambda>_. msg) (sh_status (shared a))\<rparr>\<rparr>"

definition store_flag :: "bool \<Rightarrow> 'n netmon_app \<Rightarrow> 'n netmon_app" where
  "store_flag b a = a\<lparr>flags := (flags a)[capture_running a := b]\<rparr>"

definition describe_capture_error :: "capture_error \<Rightarrow> string" where
  "describe_capture_error e =
     (case e of
        Pcap m \<Rightarrow> ''pcap error: '' @ m
      | ChannelSend m \<Rightarrow> ''capture channel send failed: '' @ m
      | ThreadJoin m \<Rightarrow> ''capture thread join failed: '' @ m)"

definition start_capture :: "os \<Rightarrow> 'n netmon_app \<Rightarrow> 'n netmon_app" where
  "start_capture os a =
     (if is_capturing a \<or> devices a = [] then a
      else if length (devices a) \<le> selected_iface a then a
      else
        let iface = devices a ! selected_iface a;
            a = a\<lparr>capture_running := length (flags a), flags := flags a @ [True]\<rparr>;
            recording_path = user_home os @ ''/'' @ PCAP_SESSION_PREFIX @ show_word (os_unix os) @ ''.pcap''
        in case spawn_capture_thread (os_open os iface) (os_savefile os recording_path) iface
              (Some recording_path) of
          Inr (control, savefile, thread) \<Rightarrow>
            set_status (''Capturing on '' @ iface @ ''...'')
              (a\<lparr>app_capture := Some control, capture_recording_path := Some recording_path,
                 is_capturing := True,
                 spawned := spawned a @ [\<lparr>th_flag = capture_running a, th_local_ips = [],
                   th_savefile = savefile, th_start = thread\<rparr>]\<rparr>)
        | Inl e \<Rightarrow>
            set_status (''Failed to start capture on '' @ iface @ '': '' @ describe_capture_error e)
              (a\<lparr>capture_recording_path := None\<rparr>))"

text \<open>Taking the control handle out and joining: the handle is gone, however the join ends.\<close>

definition stop_capture :: "os \<Rightarrow> 'n netmon_app \<Rightarrow> 'n netmon_app" where
  "stop_capture os a =
     (if \<not> is_capturing a then a
      else
        let a = store_flag False a;
            a = a\<lparr>app_capture := map_option (\<lambda>control. snd (stop control)) (app_capture a)\<rparr>;
            a = a\<lparr>app_capture := None\<rparr>
        in set_status ''Capture stopped'' (a\<lparr>is_capturing := False\<rparr>))"

definition restart_capture_for_interface_change :: "os \<Rightarrow> 'n netmon_app \<Rightarrow> 'n netmon_app" where
  "restart_capture_for_interface_change os a =
     (let was_running = is_capturing a;
          a = stop_capture os a
      in if was_running then start_capture os a else a)"

definition apply_bpf_filter :: "'n netmon_app \<Rightarrow> 'n netmon_app" where
  "apply_bpf_filter a =
     (case app_capture a of
        None \<Rightarrow> set_status ''Cannot apply BPF: capture is not running'' a
      | Some control \<Rightarrow>
          (let expr = trim (bpf_input a) in
           if expr = '''' then set_status ''Enter a BPF expression before applying it'' a
           else
             let (result, control) = apply_filter expr control;
                 a = a\<lparr>app_capture := Some control\<rparr>
             in case result of
                  Inl e \<Rightarrow> set_status (''BPF error: '' @ describe_capture_error e) a
                | Inr _ \<Rightarrow> a))"

text \<open>One message of the status channel, and the drain at the start of a frame.\<close>

definition on_status :: "string \<Rightarrow> 'n netmon_app \<Rightarrow> 'n netmon_app" where
  "on_status msg a =
     (let a = (case strip_prefix ''Filter applied: '' msg of
            Some applied_filter \<Rightarrow> a\<lparr>active_filter := applied_filter\<rparr> | None \<Rightarrow> a);
          a = (if starts_with ''Capture stopped:'' msg
               then (store_flag False (a\<lparr>is_capturing := False\<rparr>))\<lparr>app_capture := None\<rparr> else a)
      in set_status msg a)"

definition update_status_from_channel :: "'n netmon_app \<Rightarrow> 'n netmon_app" where
  "update_status_from_channel a = fold on_status (status_rx a) (a\<lparr>status_rx := []\<rparr>)"

section \<open>Traffic control\<close>

definition mark_blocked :: "u32 \<Rightarrow> 'n netmon_app \<Rightarrow> 'n netmon_app" where
  "mark_blocked pid a =
     a\<lparr>shared := (shared a)\<lparr>sh_blocked := lock_write (insert pid) (sh_blocked (shared a))\<rparr>\<rparr>"

definition mark_unblocked :: "u32 \<Rightarrow> 'n netmon_app \<Rightarrow> 'n netmon_app" where
  "mark_unblocked pid a =
     a\<lparr>shared := (shared a)\<lparr>sh_blocked := lock_write (\<lambda>b. b - {pid}) (sh_blocked (shared a))\<rparr>\<rparr>"

definition block_pid :: "'n nft_cli \<Rightarrow> os \<Rightarrow> u32 \<Rightarrow> string \<Rightarrow> 'n netmon_app \<Rightarrow> 'n netmon_app" where
  "block_pid nft os pid name a =
     (let (result, c) = block_process nft (os_read os) pid name (ctl a); a = a\<lparr>ctl := c\<rparr> in
      case result of
        Inr _ \<Rightarrow> set_status (''Blocked '' @ name @ '' (PID '' @ show_word pid @ '')'') (mark_blocked pid a)
      | Inl e \<Rightarrow> set_status (''Block failed for PID '' @ show_word pid @ '': '' @ e) a)"

definition unblock_pid :: "'n nft_cli \<Rightarrow> u32 \<Rightarrow> 'n netmon_app \<Rightarrow> 'n netmon_app" where
  "unblock_pid nft pid a =
     (let (result, c) = unblock_process nft pid (ctl a); a = a\<lparr>ctl := c\<rparr> in
      case result of
        Inr _ \<Rightarrow> set_status (''Unblocked PID '' @ show_word pid) (mark_unblocked pid a)
      | Inl e \<Rightarrow> set_status (''Unblock failed for PID '' @ show_word pid @ '': '' @ e) a)"

definition process_rows :: "'n netmon_app \<Rightarrow> process_row list" where
  "process_rows a = (case lock_read (sh_rows (shared a)) of Some rows \<Rightarrow> rows | None \<Rightarrow> [])"

text \<open>
  The loop of \<open>block_user\<close>: the PIDs tried so far, the labels of those blocked, the errors.
\<close>

fun block_user_rows ::
  "'n nft_cli \<Rightarrow> os \<Rightarrow> string \<Rightarrow> process_row list \<Rightarrow> u32 set \<Rightarrow> string list \<Rightarrow> string list
   \<Rightarrow> 'n netmon_app \<Rightarrow> string list \<times> string list \<times> 'n netmon_app" where
  "block_user_rows nft os username [] seen labels errors a = (labels, errors, a)"
| "block_user_rows nft os username (row # rows) seen labels errors a =
     (let pid = pi_pid (pr_info row); name = pi_name (pr_info row) in
      if pi_username (pr_info row) \<noteq> username \<or> pid \<in> seen
      then block_user_rows nft os username rows seen labels errors a
      else
        let (result, c) = block_process nft (os_read os) pid name (ctl a); a = a\<lparr>ctl := c\<rparr> in
        case result of
          Inr _ \<Rightarrow> block_user_rows nft os username rows (insert pid seen)
            (labels @ [name @ '' (PID '' @ show_word pid @ '')'']) errors (mark_blocked pid a)
        | Inl e \<Rightarrow> block_user_rows nft os username rows (insert pid seen) labels
            (errors @ [''PID '' @ show_word pid @ '': '' @ e]) a)"

definition block_user :: "'n nft_cli \<Rightarrow> os \<Rightarrow> string \<Rightarrow> 'n netmon_app \<Rightarrow> 'n netmon_app" where
  "block_user nft os username a =
     (let (labels, errors, a) = block_user_rows nft os username (process_rows a) {} [] [] a in
      set_status
        (if labels \<noteq> [] \<and> errors = [] then ''Blocked user '' @ username @ '': '' @ join_strs '', '' labels
         else if labels \<noteq> [] then ''Blocked user '' @ username @ '' with errors: '' @ join_strs ''; '' errors
         else if errors = [] then ''No active processes found for user '' @ username
         else ''Failed to block user '' @ username @ '': '' @ join_strs ''; '' errors) a)"

definition limit_bandwidth :: "'n nft_cli \<Rightarrow> os \<Rightarrow> u32 \<Rightarrow> string \<Rightarrow> 'n netmon_app \<Rightarrow> 'n netmon_app" where
  "limit_bandwidth nft os pid name a =
     (case parse_dec (trim (rate_limit_kbps_input a)) of
        Some rate_kbps \<Rightarrow>
          if 0 < rate_kbps then
            (let (result, c) = rate_limit_process nft (os_read os) pid rate_kbps (ctl a); a = a\<lparr>ctl := c\<rparr> in
             case result of
               Inr _ \<Rightarrow> set_status (''Rate-limited '' @ name @ '' (PID '' @ show_word pid @ '') to ''
                  @ show_word rate_kbps @ '' kbit/s'') a
             | Inl e \<Rightarrow> set_status (''Rate limit failed for PID '' @ show_word pid @ '': '' @ e) a)
          else set_status ''Enter a positive kbit/s value before limiting bandwidth'' a
      | None \<Rightarrow> set_status ''Enter a positive kbit/s value before limiting bandwidth'' a)"

section \<open>The process table\<close>

definition cmp_column :: "sort_column \<Rightarrow> process_row \<Rightarrow> process_row \<Rightarrow> ordering" where
  "cmp_column col a b =
     (case col of
        Pid \<Rightarrow> cmp_ord (pi_pid (pr_info a)) (pi_pid (pr_info b))
      | Process \<Rightarrow> cmp_ord (pi_name (pr_info a)) (pi_name (pr_info b))
      | User \<Rightarrow> cmp_ord (pi_username (pr_info a)) (pi_username (pr_info b))
      | ProtocolMix \<Rightarrow> cmp_ord (protocol_mix_summary a) (protocol_mix_summary b)
      | TxRate \<Rightarrow> cmp_ord (gui_two_second_avg (pr_tx_history a)) (gui_two_second_avg (pr_tx_history b))
      | RxRate \<Rightarrow> cmp_ord (gui_two_second_avg (pr_rx_history a)) (gui_two_second_avg (pr_rx_history b))
      | TxTotal \<Rightarrow> cmp_ord (pr_tx_bytes a) (pr_tx_bytes b)
      | RxTotal \<Rightarrow> cmp_ord (pr_rx_bytes a) (pr_rx_bytes b)
      | Tid \<Rightarrow> cmp_ord (pi_tid (pr_info a)) (pi_tid (pr_info b))
      | Thread \<Rightarrow> cmp_ord (pi_thread_name (pr_info a)) (pi_thread_name (pr_info b)))"

definition row_cmp :: "sort_column \<Rightarrow> bool \<Rightarrow> process_row \<Rightarrow> process_row \<Rightarrow> ordering" where
  "row_cmp col ascending a b =
     (if ascending then cmp_column col a b else reverse (cmp_column col a b))"

definition sorted_rows :: "'n netmon_app \<Rightarrow> process_row list \<Rightarrow> process_row list" where
  "sorted_rows a rows = sort_by (row_cmp (sort_column a) (sort_ascending a)) rows"

definition set_sort :: "sort_column \<Rightarrow> 'n netmon_app \<Rightarrow> 'n netmon_app" where
  "set_sort col a =
     (if sort_column a = col then a\<lparr>sort_ascending := \<not> sort_ascending a\<rparr>
      else a\<lparr>sort_column := col, sort_ascending := True\<rparr>)"

text \<open>The header buttons, in order, with the column each one sorts by.\<close>

definition header_columns :: "(string \<times> sort_column) list" where
  "header_columns = [(''PID'', Pid), (''Process'', Process), (''User'', User), (''Proto Mix'', ProtocolMix),
     (''TX/s (2s)'', TxRate), (''RX/s (2s)'', RxRate), (''TX Total'', TxTotal), (''RX Total'', RxTotal),
     (''TID'', Tid), (''Thread'', Thread)]"

datatype row_color = Critical | Warning | Plain

definition hot_color :: "process_row \<Rightarrow> row_color" where
  "hot_color row =
     (let tx_rate = gui_two_second_avg (pr_tx_history row);
          rx_rate = gui_two_second_avg (pr_rx_history row)
      in if VERY_HIGH_TRAFFIC_THRESHOLD_BYTES_PER_SEC < tx_rate
            \<or> VERY_HIGH_TRAFFIC_THRESHOLD_BYTES_PER_SEC < rx_rate then Critical
         else if HIGH_TRAFFIC_THRESHOLD_BYTES_PER_SEC < tx_rate
            \<or> HIGH_TRAFFIC_THRESHOLD_BYTES_PER_SEC < rx_rate then Warning
         else Plain)"

definition click_row :: "thread_key \<Rightarrow> 'n netmon_app \<Rightarrow> 'n netmon_app" where
  "click_row key a =
     (if selected_thread a = Some key then a\<lparr>selected_thread := None\<rparr>
      else a\<lparr>selected_thread := Some key\<rparr>)"

text \<open>The rows of one frame, and the selected one among them.\<close>

definition frame_rows :: "'n netmon_app \<Rightarrow> process_row list" where
  "frame_rows a = sorted_rows a (process_rows a)"

definition selected_row :: "'n netmon_app \<Rightarrow> process_row list \<Rightarrow> process_row option" where
  "selected_row a rows =
     (case selected_thread a of
        None \<Rightarrow> None
      | Some k \<Rightarrow> find (\<lambda>row. pi_pid (pr_info row) = tk_pid k \<and> pi_tid (pr_info row) = tk_tid k) rows)"

definition collect_visible_connections ::
  "'n netmon_app \<Rightarrow> process_row list \<Rightarrow> (bool \<times> connection_entry) list" where
  "collect_visible_connections a rows = concat (map (\<lambda>row.
     if (case selected_thread a of None \<Rightarrow> True
         | Some k \<Rightarrow> tk_pid k = pi_pid (pr_info row) \<and> tk_tid k = pi_tid (pr_info row))
     then map (Pair (pr_is_blocked row)) (pr_connections row) else []) rows)"

section \<open>The chart\<close>

definition add_histories :: "history \<Rightarrow> history \<Rightarrow> history option" where
  "add_histories acc h = those (map (\<lambda>i. do {
     x \<leftarrow> idx acc i;
     y \<leftarrow> idx h i;
     Some (saturating_add x y)
   }) [0..<CHART_HISTORY_SECONDS])"

fun chart_totals :: "process_row list \<Rightarrow> history \<times> history \<Rightarrow> (history \<times> history) option" where
  "chart_totals [] (tx, rx) = Some (tx, rx)"
| "chart_totals (row # rows) (tx, rx) = do {
     tx \<leftarrow> add_histories tx (pr_tx_history row);
     rx \<leftarrow> add_histories rx (pr_rx_history row);
     chart_totals rows (tx, rx)
   }"

text \<open>The points of the two lines, newest first, before the conversion to KiB.\<close>

definition draw_chart ::
  "process_row list \<Rightarrow> thread_key option \<Rightarrow> nat \<Rightarrow> (u64 list \<times> u64 list) option" where
  "draw_chart rows selected window_seconds = do {
     let window = min (max window_seconds 1) CHART_HISTORY_SECONDS;
     let zeros = replicate CHART_HISTORY_SECONDS 0;
     (tx_hist, rx_hist) \<leftarrow>
       (case selected of
          Some k \<Rightarrow>
            (case find (\<lambda>r. pi_pid (pr_info r) = tk_pid k \<and> pi_tid (pr_info r) = tk_tid k) rows of
               Some row \<Rightarrow> Some (pr_tx_history row, pr_rx_history row)
             | None \<Rightarrow> Some (zeros, zeros))
        | None \<Rightarrow> chart_totals rows (zeros, zeros));
     tx_points \<leftarrow> those (map (idx tx_hist) [0..<window]);
     rx_points \<leftarrow> those (map (idx rx_hist) [0..<window]);
     Some (tx_points, rx_points)
   }"

section \<open>Exports\<close>

text \<open>Writing lines one by one, when the first \<open>n\<close> writes succeed.\<close>

fun write_lines :: "nat \<Rightarrow> string list \<Rightarrow> bool \<times> string list" where
  "write_lines n [] = (True, [])"
| "write_lines 0 (l # ls) = (False, [])"
| "write_lines (Suc n) (l # ls) = (let (complete, written) = write_lines n ls in (complete, l # written))"

definition export_header :: string where
  "export_header = ''timestamp,pid,tid,process,thread,user,uid,tx_bytes_total,rx_bytes_total,''
     @ ''tx_2s_avg,rx_2s_avg,tx_10s_avg,rx_10s_avg'' @ [newline]"

definition export_cmp :: "history_csv_row \<Rightarrow> history_csv_row \<Rightarrow> ordering" where
  "export_cmp a b = then_cmp (cmp_ord (hr_timestamp a) (hr_timestamp b))
     (then_cmp (cmp_ord (hr_pid a) (hr_pid b)) (cmp_ord (hr_tid a) (hr_tid b)))"

definition export_line :: "history_csv_row \<Rightarrow> string" where
  "export_line row = join_strs '','' [show_word (hr_timestamp row), show_word (hr_pid row),
     show_word (hr_tid row), gui_sanitize_csv (hr_process row), gui_sanitize_csv (hr_thread row),
     gui_sanitize_csv (hr_user row), show_word (hr_uid row), show_word (hr_tx_bytes_total row),
     show_word (hr_rx_bytes_total row), show_word (hr_tx_2s_avg row), show_word (hr_rx_2s_avg row),
     show_word (hr_tx_10s_avg row), show_word (hr_rx_10s_avg row)] @ [newline]"

text \<open>The second component is the file created, with what was written to it.\<close>

definition export_csv :: "os \<Rightarrow> 'n netmon_app \<Rightarrow> 'n netmon_app \<times> (string \<times> string list) option" where
  "export_csv os a =
     (let rows = (case lock_read (sh_history (shared a)) of Some h \<Rightarrow> h | None \<Rightarrow> []) in
      if rows = [] then (set_status ''No session history captured yet'' a, None)
      else
        let path = user_home os @ ''/'' @ PCAP_EXPORT_PREFIX @ show_word (os_unix os) @ ''.csv'' in
        case os_create os path of
          Some e \<Rightarrow> (set_status (''CSV export failed: '' @ e) a, None)
        | None \<Rightarrow>
            if os_writes os = 0 then
              (set_status ''CSV export failed while writing header'' a, Some (path, []))
            else
              let (complete, written) =
                write_lines (os_writes os - 1) (map export_line (sort_by export_cmp rows))
              in (if complete then set_status (''Exported CSV to '' @ path) a
                  else set_status ''CSV export failed while writing rows'' a,
                  Some (path, export_header # written)))"

text \<open>The second component is the copy made, from the first path to the second.\<close>

definition export_pcap :: "os \<Rightarrow> 'n netmon_app \<Rightarrow> 'n netmon_app \<times> (string \<times> string) option" where
  "export_pcap os a =
     (case capture_recording_path a of
        None \<Rightarrow> (set_status ''PCAP export unavailable: start capture first'' a, None)
      | Some source_path \<Rightarrow>
          if \<not> os_exists os source_path then
            (set_status ''PCAP export unavailable: no recording file yet'' a, None)
          else
            let destination_path =
              user_home os @ ''/'' @ PCAP_EXPORT_PREFIX @ show_word (os_unix os) @ ''.pcap''
            in case os_copy os source_path destination_path of
              Some e \<Rightarrow> (set_status (''PCAP export failed: '' @ e) a, None)
            | None \<Rightarrow> (set_status (''Exported PCAP to '' @ destination_path) a,
                Some (source_path, destination_path)))"

section \<open>Frames\<close>

text \<open>
  What the widgets of a frame report. The buttons of a row or of a connection carry the row
  or connection they were drawn for; the slider reports a value in its range.
\<close>

datatype gui_event =
    EscapeKey
  | ChooseInterface nat
  | ToggleCapture
  | EditBpf string
  | ApplyBpf
  | ToggleBits
  | SlideChartWindow nat
  | ExportCsv
  | ExportPcap
  | ClickHeader string
  | ClickRow thread_key
  | EditRateLimit string
  | BlockSelected
  | BlockSelectedUser
  | LimitSelected
  | MenuBlock connection_entry
  | MenuBlockUser connection_entry
  | MenuLimit connection_entry
  | MenuUnblock connection_entry
  | ConfirmBlock
  | CancelBlock

text \<open>
  The handlers, one for each panel, in the order in which a frame draws them; a handler
  ignores the events of the others.
\<close>

definition on_keyboard :: "gui_event \<Rightarrow> 'n netmon_app \<Rightarrow> 'n netmon_app" where
  "on_keyboard e a = (case e of EscapeKey \<Rightarrow> a\<lparr>selected_thread := None\<rparr> | _ \<Rightarrow> a)"

text \<open>The combo box offers the devices; any click on an entry counts as a change.\<close>

definition choose_interface :: "nat \<Rightarrow> 'n netmon_app \<Rightarrow> bool \<times> 'n netmon_app" where
  "choose_interface i a =
     (if i < length (devices a) then (True, a\<lparr>selected_iface := i\<rparr>) else (False, a))"

definition toggle_capture :: "os \<Rightarrow> 'n netmon_app \<Rightarrow> 'n netmon_app" where
  "toggle_capture os a = (if is_capturing a then stop_capture os a else start_capture os a)"

definition on_toolbar :: "os \<Rightarrow> gui_event \<Rightarrow> 'n netmon_app \<Rightarrow> 'n netmon_app" where
  "on_toolbar os e a =
     (case e of
        ChooseInterface i \<Rightarrow>
          (let (interface_changed, a) = choose_interface i a in
           if interface_changed then restart_capture_for_interface_change os a else a)
      | ToggleCapture \<Rightarrow> toggle_capture os a
      | EditBpf text \<Rightarrow> a\<lparr>bpf_input := text\<rparr>
      | ApplyBpf \<Rightarrow> apply_bpf_filter a
      | ToggleBits \<Rightarrow> a\<lparr>show_bits := \<not> show_bits a\<rparr>
      | SlideChartWindow n \<Rightarrow>
          if 30 \<le> n \<and> n \<le> CHART_HISTORY_SECONDS then a\<lparr>chart_window_seconds := n\<rparr> else a
      | ExportCsv \<Rightarrow> fst (export_csv os a)
      | ExportPcap \<Rightarrow> fst (export_pcap os a)
      | _ \<Rightarrow> a)"

definition on_table :: "gui_event \<Rightarrow> 'n netmon_app \<Rightarrow> 'n netmon_app" where
  "on_table e a =
     (case e of
        ClickHeader label \<Rightarrow> (case map_of header_columns label of Some col \<Rightarrow> set_sort col a | None \<Rightarrow> a)
      | ClickRow key \<Rightarrow> if key \<in> row_key ` set (frame_rows a) then click_row key a else a
      | _ \<Rightarrow> a)"

definition on_controls :: "'n nft_cli \<Rightarrow> os \<Rightarrow> gui_event \<Rightarrow> 'n netmon_app \<Rightarrow> 'n netmon_app" where
  "on_controls nft os e a =
     (case selected_row a (frame_rows a) of
        None \<Rightarrow> a
      | Some row \<Rightarrow>
          (case e of
             BlockSelected \<Rightarrow> block_pid nft os (pi_pid (pr_info row)) (pi_name (pr_info row)) a
           | BlockSelectedUser \<Rightarrow> block_user nft os (pi_username (pr_info row)) a
           | EditRateLimit text \<Rightarrow> a\<lparr>rate_limit_kbps_input := text\<rparr>
           | LimitSelected \<Rightarrow> limit_bandwidth nft os (pi_pid (pr_info row)) (pi_name (pr_info row)) a
           | _ \<Rightarrow> a))"

text \<open>The menu of a connection row, with the connection the row was drawn for.\<close>

definition on_menu :: "'n nft_cli \<Rightarrow> os \<Rightarrow> gui_event \<Rightarrow> 'n netmon_app \<Rightarrow> 'n netmon_app" where
  "on_menu nft os e a =
     (case e of
        MenuBlock conn \<Rightarrow> a\<lparr>pending_block := Some (ce_pid conn, ce_process conn)\<rparr>
      | MenuBlockUser conn \<Rightarrow> block_user nft os (ce_username conn) a
      | MenuLimit conn \<Rightarrow> limit_bandwidth nft os (ce_pid conn) (ce_process conn) a
      | MenuUnblock conn \<Rightarrow> unblock_pid nft (ce_pid conn) a
      | _ \<Rightarrow> a)"

definition on_dialog :: "'n nft_cli \<Rightarrow> os \<Rightarrow> gui_event \<Rightarrow> 'n netmon_app \<Rightarrow> 'n netmon_app" where
  "on_dialog nft os e a =
     (case pending_block a of
        None \<Rightarrow> a
      | Some (pid, process_name) \<Rightarrow>
          (case e of
             ConfirmBlock \<Rightarrow> (block_pid nft os pid process_name a)\<lparr>pending_block := None\<rparr>
           | CancelBlock \<Rightarrow> a\<lparr>pending_block := None\<rparr>
           | _ \<Rightarrow> a))"

definition handle_event :: "'n nft_cli \<Rightarrow> os \<Rightarrow> gui_event \<Rightarrow> 'n netmon_app \<Rightarrow> 'n netmon_app" where
  "handle_event nft os e a =
     (let a = on_keyboard e a;
          a = on_toolbar os e a;
          a = on_table e a;
          a = on_controls nft os e a;
          a = on_menu nft os e a
      in on_dialog nft os e a)"

lemmas panels = on_keyboard_def choose_interface_def toggle_capture_def on_toolbar_def on_table_def
  on_controls_def on_menu_def on_dialog_def

text \<open>The texts of the panels that a state determines without a floating-point number.\<close>

definition status_text :: "'n netmon_app \<Rightarrow> string" where
  "status_text a = (case lock_read (sh_status (shared a)) of
     Some text \<Rightarrow> text | None \<Rightarrow> ''Status unavailable'')"

definition interface_label :: "'n netmon_app \<Rightarrow> string" where
  "interface_label a = (if selected_iface a < length (devices a) then devices a ! selected_iface a
     else ''No interfaces'')"

definition filter_label :: "'n netmon_app \<Rightarrow> string option" where
  "filter_label a = (if active_filter a = '''' then None else Some (''Active Filter: '' @ active_filter a))"

definition selected_label :: "process_row \<Rightarrow> string" where
  "selected_label row = ''Selected thread: '' @ pi_name (pr_info row) @ '' / '' @ pi_thread_name (pr_info row)
     @ '' (PID '' @ show_word (pi_pid (pr_info row)) @ '', TID '' @ show_word (pi_tid (pr_info row))
     @ '', user '' @ pi_username (pr_info row) @ '')''"

definition block_question :: "u32 \<Rightarrow> string \<Rightarrow> string" where
  "block_question pid process_name = ''Block all traffic for '' @ process_name @ '' (PID '' @ show_word pid
     @ '')? This will insert an nftables rule. Confirm?''"

definition update_frame :: "'n nft_cli \<Rightarrow> os \<Rightarrow> gui_event list \<Rightarrow> 'n netmon_app \<Rightarrow> 'n netmon_app" where
  "update_frame nft os events a =
     fold (handle_event nft os) events (update_status_from_channel a)"

text \<open>Shutdown, when the window is closed.\<close>

definition drop_app :: "'n nft_cli \<Rightarrow> os \<Rightarrow> 'n netmon_app \<Rightarrow> 'n netmon_app" where
  "drop_app nft os a =
     (let a = store_flag False a;
          a = a\<lparr>app_running := False\<rparr>;
          a = a\<lparr>app_capture := map_option (\<lambda>control. snd (stop control)) (app_capture a)\<rparr>;
          a = a\<lparr>app_capture := None\<rparr>;
          a = a\<lparr>app_aggregator := None\<rparr>
      in a\<lparr>ctl := snd (unblock_all nft (ctl a))\<rparr>)"

end
