(* ===== verification/Gui_Session.thy ===== *)
theory Gui_Session
  imports Gui
begin

text \<open>
  The application as a state machine: frames, and what the threads and the operating system
  do between them, as a step relation; the invariant of the capture session, preserved by
  every operation; and what a message left over from an earlier capture does.
\<close>

section \<open>Steps\<close>

text \<open>
  A frame handles the events of the user. In between, a thread that was spawned sends a
  status message, one whose device fails lowers its own stop flag, the capture thread
  receives commands or ends, the aggregator publishes (or the locks become poisoned), and
  someone else changes the packet filter.
\<close>

inductive app_step :: "'n nft_cli \<Rightarrow> 'n netmon_app \<Rightarrow> 'n netmon_app \<Rightarrow> bool" for nft where
  frame: "app_step nft a (update_frame nft os events a)"
| message: "spawned a \<noteq> [] \<Longrightarrow> app_step nft a (a\<lparr>status_rx := status_rx a @ [msg]\<rparr>)"
| device_failed: "t \<in> set (spawned a) \<Longrightarrow> app_step nft a (a\<lparr>flags := (flags a)[th_flag t := False]\<rparr>)"
| capture: "app_capture a = Some c \<Longrightarrow> join_handle c' = join_handle c
    \<Longrightarrow> app_step nft a (a\<lparr>app_capture := Some c'\<rparr>)"
| publish: "app_step nft a (a\<lparr>shared := sh\<rparr>)"
| filter_changed: "app_step nft a (a\<lparr>ctl := (ctl a)\<lparr>filter_state := n\<rparr>\<rparr>)"

inductive reachable :: "'n nft_cli \<Rightarrow> 'n netmon_app \<Rightarrow> bool" for nft where
  started: "start_app nft os is_root ds c = Inr a \<Longrightarrow> reachable nft a"
| stepped: "reachable nft a \<Longrightarrow> app_step nft a b \<Longrightarrow> reachable nft b"

inductive_cases app_stepE: "app_step nft a b"
inductive_simps app_step_iff: "app_step nft a b"

fun toolbar_event :: "gui_event \<Rightarrow> bool" where
  "toolbar_event (ChooseInterface i) = True"
| "toolbar_event ToggleCapture = True"
| "toolbar_event ApplyBpf = True"
| "toolbar_event e = False"

lemma not_for_others:
  assumes "toolbar_event e"
  shows "on_keyboard e a = a" "on_table e a = a" "on_controls nft os e a = a" "on_menu nft os e a = a"
    "on_dialog nft os e a = a"
  using assms by (cases e; simp add: panels split: option.split)+

lemma handle_toolbar_event: "toolbar_event e \<Longrightarrow> handle_event nft os e a = on_toolbar os e a"
  by (simp add: handle_event_def not_for_others)

lemma handle_event_simps:
  "handle_event nft os ToggleCapture a = (if is_capturing a then stop_capture os a else start_capture os a)"
  "handle_event nft os (ChooseInterface i) a =
     (if i < length (devices a) then restart_capture_for_interface_change os (a\<lparr>selected_iface := i\<rparr>) else a)"
  "handle_event nft os ApplyBpf a = apply_bpf_filter a"
  by (simp_all add: handle_toolbar_event on_toolbar_def choose_interface_def toggle_capture_def)

section \<open>The session\<close>

text \<open>The part of the state the capture session consists of; most operations leave it alone.\<close>

definition session where
  "session a = (devices a, selected_iface a, app_capture a, capture_running a, is_capturing a,
     capture_recording_path a, flags a, spawned a)"

named_theorems session_frame \<open>operations that leave the capture session alone\<close>

lemma session_set_status [simp, session_frame]: "session (set_status m a) = session a"
  by (simp add: session_def set_status_def)

lemma session_update [simp, session_frame]:
  "session (a\<lparr>ctl := c\<rparr>) = session a" "session (a\<lparr>shared := sh\<rparr>) = session a"
  "session (a\<lparr>status_rx := ms\<rparr>) = session a" "session (a\<lparr>selected_thread := k\<rparr>) = session a"
  "session (a\<lparr>bpf_input := t\<rparr>) = session a" "session (a\<lparr>show_bits := b\<rparr>) = session a"
  "session (a\<lparr>active_filter := t\<rparr>) = session a" "session (a\<lparr>chart_window_seconds := n\<rparr>) = session a"
  "session (a\<lparr>rate_limit_kbps_input := t\<rparr>) = session a" "session (a\<lparr>pending_block := p\<rparr>) = session a"
  "session (a\<lparr>sort_column := col\<rparr>) = session a" "session (a\<lparr>sort_ascending := b\<rparr>) = session a"
  by (simp_all add: session_def)

lemma session_mark [simp, session_frame]:
  "session (mark_blocked pid a) = session a" "session (mark_unblocked pid a) = session a"
  by (simp_all add: mark_blocked_def mark_unblocked_def)

lemma session_block_pid [session_frame]: "session (block_pid nft os pid name a) = session a"
  by (auto simp: block_pid_def Let_def split: prod.splits sum.splits)

lemma session_unblock_pid [session_frame]: "session (unblock_pid nft pid a) = session a"
  by (auto simp: unblock_pid_def Let_def split: prod.splits sum.splits)

lemma session_block_user_rows:
  "block_user_rows nft os user rows seen labels errors a = (ls, es, b) \<Longrightarrow> session b = session a"
  by (induction rows arbitrary: seen labels errors a)
     (auto simp: Let_def split: prod.splits sum.splits if_splits)

lemma session_block_user [session_frame]: "session (block_user nft os user a) = session a"
  by (auto simp: block_user_def dest: session_block_user_rows split: prod.splits)

lemma session_limit_bandwidth [session_frame]: "session (limit_bandwidth nft os pid name a) = session a"
  by (auto simp: limit_bandwidth_def Let_def split: prod.splits sum.splits option.splits)

lemma session_exports [session_frame]:
  "session (fst (export_csv os a)) = session a" "session (fst (export_pcap os a)) = session a"
  by (simp_all add: export_csv_def export_pcap_def Let_def split: option.splits prod.splits)

lemma session_table [session_frame]:
  "session (set_sort col a) = session a" "session (click_row k a) = session a"
  by (simp_all add: set_sort_def click_row_def)

section \<open>The invariant\<close>

text \<open>The threads that still see their flag set.\<close>

definition live :: "'n netmon_app \<Rightarrow> capture_thread list" where
  "live a = filter (\<lambda>t. flags a ! th_flag t) (spawned a)"

definition session_ok :: "'n netmon_app \<Rightarrow> bool" where
  "session_ok a \<longleftrightarrow> (is_capturing a \<longleftrightarrow> app_capture a \<noteq> None)
     \<and> (is_capturing a \<longrightarrow> capture_recording_path a \<noteq> None)
     \<and> (devices a = [] \<or> selected_iface a < length (devices a))
     \<and> (\<forall>c. app_capture a = Some c \<longrightarrow> join_handle c = Some ())
     \<and> capture_running a < length (flags a)
     \<and> distinct (map th_flag (spawned a))
     \<and> (\<forall>t \<in> set (spawned a). th_flag t < length (flags a) \<and> th_local_ips t = [] \<and> fresh (th_start t))
     \<and> (is_capturing a \<longrightarrow> capture_running a \<in> th_flag ` set (spawned a))
     \<and> (\<forall>t \<in> set (live a). is_capturing a \<and> th_flag t = capture_running a)"

lemma session_ok_cong: "session a = session b \<Longrightarrow> session_ok a = session_ok b"
  by (simp add: session_def session_ok_def live_def)

lemma session_ok_set_status [simp]: "session_ok (set_status m a) = session_ok a"
  by (rule session_ok_cong) simp

lemma session_okD:
  assumes "session_ok a"
  shows "is_capturing a \<longleftrightarrow> app_capture a \<noteq> None"
    "is_capturing a \<Longrightarrow> capture_recording_path a \<noteq> None"
    "devices a = [] \<or> selected_iface a < length (devices a)"
    "app_capture a = Some c \<Longrightarrow> join_handle c = Some ()"
    "capture_running a < length (flags a)"
    "distinct (map th_flag (spawned a))"
    "t \<in> set (spawned a) \<Longrightarrow> th_flag t < length (flags a) \<and> th_local_ips t = [] \<and> fresh (th_start t)"
    "t \<in> set (live a) \<Longrightarrow> is_capturing a \<and> th_flag t = capture_running a"
    "is_capturing a \<Longrightarrow> capture_running a \<in> th_flag ` set (spawned a)"
  using assms unfolding session_ok_def by blast+

lemma not_capturing_live: "session_ok a \<Longrightarrow> \<not> is_capturing a \<Longrightarrow> live a = []"
  by (cases "live a") (auto dest: session_okD(8))

text \<open>At most one thread sees its flag set.\<close>

lemma live_cases:
  assumes "session_ok a"
  obtains "live a = []" | t where "is_capturing a" "live a = [t]" "th_flag t = capture_running a"
proof (cases "live a")
  case (Cons t ts)
  have "distinct (map th_flag (live a))"
    using session_okD(6) [OF assms] by (simp add: live_def distinct_map_filter)
  moreover have "\<forall>f \<in> set (map th_flag (live a)). f = capture_running a"
    using session_okD(8) [OF assms] by simp
  ultimately have "ts = []" unfolding Cons by (cases ts) simp_all
  with session_okD(8) [OF assms, of t] Cons that(2) show ?thesis by simp
qed (rule that(1))

lemma session_ok_new: "session_ok (app_new os ds c)"
  by (simp add: session_ok_def app_new_def live_def)

subsection \<open>Stopping and starting\<close>

lemma live_in: "t \<in> set (live a) \<longleftrightarrow> t \<in> set (spawned a) \<and> flags a ! th_flag t"
  by (auto simp: live_def)

text \<open>Every way of ending a capture clears the flag, drops the handle and resets the field.\<close>

lemma session_ended:
  assumes ok: "session_ok a"
    and b: "session b = session ((store_flag False a)\<lparr>is_capturing := False, app_capture := None\<rparr>)"
  shows "session_ok b"
proof -
  let ?b = "(store_flag False a)\<lparr>is_capturing := False, app_capture := None\<rparr>"
  have "\<not> (flags a)[capture_running a := False] ! th_flag t" if t: "t \<in> set (spawned a)" for t
  proof (cases "flags a ! th_flag t")
    case True
    with t have "t \<in> set (live a)" by (simp add: live_in)
    with session_okD(5,8) [OF ok] show ?thesis by auto
  next
    case False
    with session_okD(7) [OF ok t] show ?thesis
      by (cases "capture_running a = th_flag t") simp_all
  qed
  then have "live ?b = []" by (simp add: live_def store_flag_def)
  with ok have "session_ok ?b"
    by (simp add: session_ok_def store_flag_def)
  with b show ?thesis using session_ok_cong by blast
qed

lemma stop_capture_ok: "session_ok a \<Longrightarrow> session_ok (stop_capture os a)"
proof (cases "is_capturing a")
  case True
  assume "session_ok a"
  then show ?thesis
    by (rule session_ended) (simp add: stop_capture_def True Let_def, simp add: session_def store_flag_def)
qed (simp add: stop_capture_def)

lemma stop_capture_stops: "session_ok a \<Longrightarrow> \<not> is_capturing (stop_capture os a)"
  by (simp add: stop_capture_def set_status_def Let_def)

lemma start_capture_ok:
  assumes "session_ok a"
  shows "session_ok (start_capture os a)"
proof (cases "is_capturing a \<or> devices a = [] \<or> length (devices a) \<le> selected_iface a")
  case True
  with assms show ?thesis by (auto simp: start_capture_def)
next
  case False
  let ?iface = "devices a ! selected_iface a"
  let ?path = "user_home os @ ''/'' @ PCAP_SESSION_PREFIX @ show_word (os_unix os) @ ''.pcap''"
  note okD = session_okD [OF assms]
  from False have "live a = []" using not_capturing_live [OF assms] by simp
  then have dead: "\<not> flags a ! th_flag t" if "t \<in> set (spawned a)" for t
    using that by (auto simp: live_def filter_empty_conv)
  have none: "filter (\<lambda>t. (flags a @ [True]) ! th_flag t) (spawned a) = []"
    using okD(7) dead by (auto simp: nth_append filter_empty_conv)
  have new: "length (flags a) \<notin> set (map th_flag (spawned a))"
    using okD(7) by fastforce
  show ?thesis
  proof (cases "spawn_capture_thread (os_open os ?iface) (os_savefile os ?path) ?iface (Some ?path)")
    case (Inl e)
    have "session_ok (a\<lparr>capture_running := length (flags a), flags := flags a @ [True],
        capture_recording_path := None\<rparr>)"
      using False none okD(1-7) by (auto simp: session_ok_def live_def less_Suc_eq)
    with Inl False show ?thesis by (simp add: start_capture_def Let_def)
  next
    case (Inr r)
    obtain control savefile thread where r: "r = (control, savefile, thread)" by (cases r) auto
    have control: "join_handle control = Some ()"
      using Inr r by (auto simp: spawn_capture_thread_def split: sum.splits prod.splits)
    have "fresh thread" using Inr r spawn_fresh by blast
    with False none new okD(1-7) control
    have "session_ok (a\<lparr>capture_running := length (flags a), flags := flags a @ [True],
        app_capture := Some control, capture_recording_path := Some ?path, is_capturing := True,
        spawned := spawned a @ [\<lparr>th_flag = length (flags a), th_local_ips = [],
          th_savefile = savefile, th_start = thread\<rparr>]\<rparr>)"
      by (auto simp: session_ok_def live_def less_Suc_eq nth_append)
    with Inr r False show ?thesis by (simp add: start_capture_def Let_def)
  qed
qed

lemma restart_ok: "session_ok a \<Longrightarrow> session_ok (restart_capture_for_interface_change os a)"
  by (simp add: restart_capture_for_interface_change_def stop_capture_ok start_capture_ok Let_def)

lemma apply_bpf_filter_ok:
  assumes "session_ok a"
  shows "session_ok (apply_bpf_filter a)"
proof (cases "app_capture a")
  case None
  then show ?thesis using assms by (simp add: apply_bpf_filter_def)
next
  case (Some c)
  have keep: "session_ok (a\<lparr>app_capture := Some c'\<rparr>)" if "join_handle c' = join_handle c" for c'
    using assms Some that by (simp add: session_ok_def live_def)
  have "join_handle (snd (apply_filter e c)) = join_handle c" for e
    by (simp add: apply_filter_def send_command_def)
  with Some keep assms show ?thesis
    by (auto simp: apply_bpf_filter_def Let_def split: prod.splits sum.splits) (metis snd_conv)+
qed

lemma session_Filter [simp]: "session (a\<lparr>active_filter := t, status_rx := ms\<rparr>) = session a"
  by (simp add: session_def)

lemma on_status_ok:
  assumes "session_ok a"
  shows "session_ok (on_status msg a)"
proof -
  let ?a = "case strip_prefix ''Filter applied: '' msg of
      Some applied_filter \<Rightarrow> a\<lparr>active_filter := applied_filter\<rparr> | None \<Rightarrow> a"
  have s: "session ?a = session a" by (simp split: option.splits)
  with assms have ok: "session_ok ?a" using session_ok_cong by blast
  show ?thesis
  proof (cases "starts_with ''Capture stopped:'' msg")
    case True
    from ok show ?thesis
      by (rule session_ended)
         (simp add: on_status_def True Let_def, simp add: session_def store_flag_def)
  next
    case False
    with ok show ?thesis by (simp add: on_status_def Let_def)
  qed
qed

lemma drain_session_ok: "session_ok a \<Longrightarrow> session_ok (update_status_from_channel a)"
proof -
  have "session_ok b \<Longrightarrow> session_ok (fold on_status msgs b)" for msgs and b :: "'a netmon_app"
    by (induction msgs arbitrary: b) (simp_all add: on_status_ok)
  moreover assume "session_ok a"
  then have "session_ok (a\<lparr>status_rx := []\<rparr>)" using session_ok_cong [OF session_update(3)] by blast
  ultimately show ?thesis by (simp add: update_status_from_channel_def)
qed

subsection \<open>Every event, frame and step\<close>

lemma session_ok_same: "session_ok a \<Longrightarrow> session b = session a \<Longrightarrow> session_ok b"
  using session_ok_cong by blast

lemma on_toolbar_ok:
  assumes "session_ok a"
  shows "session_ok (on_toolbar os e a)"
proof -
  have chosen: "session_ok (a\<lparr>selected_iface := i\<rparr>)" if "i < length (devices a)" for i
    using assms that by (auto simp: session_ok_def live_def)
  have same: "session_ok b" if "session b = session a" for b
    using assms that by (rule session_ok_same)
  show ?thesis
    by (cases e) (auto simp: on_toolbar_def choose_interface_def toggle_capture_def session_frame
        restart_ok chosen stop_capture_ok start_capture_ok apply_bpf_filter_ok assms intro!: same)
qed

lemma session_panels [session_frame]:
  "session (on_keyboard e a) = session a" "session (on_table e a) = session a"
  "session (on_controls nft os e a) = session a" "session (on_menu nft os e a) = session a"
  "session (on_dialog nft os e a) = session a"
  by (cases e; simp add: panels session_frame split: option.split)+

lemma handle_event_ok: "session_ok a \<Longrightarrow> session_ok (handle_event nft os e a)"
proof -
  assume "session_ok a"
  then have "session_ok (on_keyboard e a)" by (rule session_ok_same) (rule session_panels)
  then have "session_ok (on_toolbar os e (on_keyboard e a))" by (rule on_toolbar_ok)
  then show ?thesis by (rule session_ok_same) (simp add: handle_event_def Let_def session_panels)
qed

lemma update_frame_ok: "session_ok a \<Longrightarrow> session_ok (update_frame nft os events a)"
proof -
  have "session_ok b \<Longrightarrow> session_ok (fold (handle_event nft os) events b)" for b
    by (induction events arbitrary: b) (simp_all add: handle_event_ok)
  then show "session_ok a \<Longrightarrow> ?thesis" by (simp add: update_frame_def drain_session_ok)
qed

lemma app_step_ok:
  assumes "app_step nft a b" and "session_ok a"
  shows "session_ok b"
  using assms
proof (induction rule: app_step.induct)
  case (frame os events a)
  then show ?case by (rule update_frame_ok)
next
  case (message a msg)
  then show ?case using session_ok_cong [OF session_update(3)] by blast
next
  case (device_failed t a)
  have "flags a ! i" if "(flags a)[j := False] ! i" "i < length (flags a)" for i j
    using that by (cases "i = j") simp_all
  then have "set (live (a\<lparr>flags := (flags a)[th_flag t := False]\<rparr>)) \<subseteq> set (live a)"
    using session_okD(7) [OF device_failed(2)] by (auto simp: live_def)
  with device_failed(2) show ?case by (auto simp: session_ok_def)
next
  case (capture a c c')
  then show ?case by (auto simp: session_ok_def live_def)
next
  case (publish a sh)
  then show ?case using session_ok_cong [OF session_update(2)] by blast
next
  case (filter_changed a n)
  then show ?case using session_ok_cong [OF session_update(1)] by blast
qed

lemma reachable_ok: "reachable nft a \<Longrightarrow> session_ok a"
proof (induction rule: reachable.induct)
  case (started os is_root ds c a)
  then show ?case by (auto simp: start_app_def session_ok_new split: option.splits)
qed (rule app_step_ok)

section \<open>Properties of the session\<close>

text \<open>A desk with one interface whose device opens, for the witnesses.\<close>

definition quiet_nft :: "unit nft_cli" where
  "quiet_nft = \<lparr>nft_args = \<lambda>_ n. (Exited True '''' '''', n), nft_stdin = \<lambda>_ n. (ScriptExited True '''' '''', n)\<rparr>"

definition desk_os :: os where
  "desk_os = \<lparr>os_open = \<lambda>_. Inr (), os_savefile = \<lambda>_. Inr (), os_join = Joined, os_agg_join = Finished,
     os_unix = 0, os_env_var = \<lambda>_. None, os_read = \<lambda>_. None, os_create = \<lambda>_. None, os_writes = 0,
     os_exists = \<lambda>_. True, os_copy = \<lambda>_ _. None\<rparr>"

definition desk_app :: "unit netmon_app" where
  "desk_app = app_new desk_os (Some [''eth0'', ''wlan0'']) \<lparr>rules_map = Unpoisoned [], filter_state = ()\<rparr>"

definition capturing_app :: "unit netmon_app" where
  "capturing_app = update_frame quiet_nft desk_os [ToggleCapture] desk_app"

lemma desk_started:
  "start_app quiet_nft desk_os True (Some [''eth0'', ''wlan0''])
     \<lparr>rules_map = Unpoisoned [], filter_state = ()\<rparr> = Inr desk_app"
proof -
  have "snd (setup_nftables quiet_nft c) = c" for c
    by (simp add: setup_nftables_def run_nft_command_def quiet_nft_def)
  then show ?thesis by (simp add: start_app_def ensure_privileges_or_exit_def desk_app_def)
qed

lemma reachable_desk: "reachable quiet_nft desk_app"
  by (rule reachable.started [OF desk_started])

lemma reachable_capturing: "reachable quiet_nft capturing_app"
  unfolding capturing_app_def by (rule reachable.stepped [OF reachable_desk app_step.frame])

text \<open>A start on a device that opens.\<close>

lemma start_capture_opens:
  assumes "\<not> is_capturing a" and "selected_iface a < length (devices a)"
    and "os_open os (devices a ! selected_iface a) = Inr ()"
  shows "is_capturing (start_capture os a)"
    and "\<exists>t. spawned (start_capture os a) = spawned a @ [t] \<and> kernel_filter (th_start t) = None"
    and "status_rx (start_capture os a) = status_rx a"
    and "active_filter (start_capture os a) = active_filter a"
  using assms
  by (auto simp: start_capture_def spawn_capture_thread_def set_status_def Let_def
      split: sum.splits prod.splits)

lemma start_capture_live:
  assumes ok: "session_ok a" and opens: "\<not> is_capturing a" "selected_iface a < length (devices a)"
    "os_open os (devices a ! selected_iface a) = Inr ()"
  shows "\<exists>t. spawned (start_capture os a) = spawned a @ [t] \<and> live (start_capture os a) = [t]
    \<and> th_flag t = capture_running (start_capture os a)"
proof -
  have "\<not> flags a ! th_flag t" if "t \<in> set (spawned a)" for t
    using not_capturing_live [OF ok opens(1)] that by (auto simp: live_def filter_empty_conv)
  then have "filter (\<lambda>t. (flags a @ [True]) ! th_flag t) (spawned a) = []"
    using session_okD(7) [OF ok] by (auto simp: nth_append filter_empty_conv)
  with opens show ?thesis
    by (auto simp: start_capture_def spawn_capture_thread_def set_status_def Let_def live_def
        split: sum.splits prod.splits)
qed

lemma capturing_app_eq: "capturing_app = start_capture desk_os desk_app"
  unfolding capturing_app_def update_frame_def
  by (simp add: handle_event_simps update_status_from_channel_def desk_app_def app_new_def)

lemma start_on_desk: "is_capturing capturing_app"
  unfolding capturing_app_def update_frame_def
  by (simp add: handle_event_simps update_status_from_channel_def desk_app_def app_new_def
      start_capture_opens desk_os_def)



subsection \<open>Left-over messages\<close>

lemma on_status_stops: "starts_with ''Capture stopped:'' msg \<Longrightarrow> \<not> is_capturing (on_status msg a)"
  by (simp add: on_status_def Let_def set_status_def store_flag_def)

lemma on_status_frame [simp]:
  "spawned (on_status msg a) = spawned a" "status_rx (on_status msg a) = status_rx a"
  by (simp_all add: on_status_def Let_def set_status_def store_flag_def split: option.split)

lemma on_status_not_restarted: "\<not> is_capturing a \<Longrightarrow> \<not> is_capturing (on_status msg a)"
  by (simp add: on_status_def Let_def set_status_def store_flag_def split: option.split)

lemma drain_stops:
  "msg \<in> set (status_rx a) \<Longrightarrow> starts_with ''Capture stopped:'' msg
   \<Longrightarrow> \<not> is_capturing (update_status_from_channel a) \<and> spawned (update_status_from_channel a) = spawned a"
proof -
  have kept: "spawned (fold on_status msgs b) = spawned b" for msgs and b :: "'a netmon_app"
    by (induction msgs arbitrary: b) simp_all
  have dead: "\<not> is_capturing b \<Longrightarrow> \<not> is_capturing (fold on_status msgs b)" for msgs and b :: "'a netmon_app"
    by (induction msgs arbitrary: b) (simp_all add: on_status_not_restarted)
  have "\<not> is_capturing (fold on_status msgs b)"
    if "msg \<in> set msgs" "starts_with ''Capture stopped:'' msg" for msgs and b :: "'a netmon_app"
    using that by (induction msgs arbitrary: b) (auto simp: dead on_status_stops)
  moreover assume "msg \<in> set (status_rx a)" "starts_with ''Capture stopped:'' msg"
  ultimately show ?thesis by (simp add: update_status_from_channel_def kept)
qed

lemma stopped_msg_prefix: "starts_with ''Capture stopped:'' STOPPED_MSG"
  by code_simp

lemma stop_capture_frame [simp]:
  "devices (stop_capture os a) = devices a" "selected_iface (stop_capture os a) = selected_iface a"
  "spawned (stop_capture os a) = spawned a" "status_rx (stop_capture os a) = status_rx a"
  "active_filter (stop_capture os a) = active_filter a"
  by (simp_all add: stop_capture_def Let_def set_status_def store_flag_def)

text \<open>C12. The status channel outlives a capture thread. When the device of a running capture
  fails in the same frame in which the user picks another interface, the new capture starts,
  and the message of the old thread, read in the next frame, ends it: its flag is cleared
  although its device works.\<close>

theorem stale_stop_message:
  assumes "reachable nft a" and "is_capturing a" and "i < length (devices a)" and "status_rx a = []"
    and "os_open os (devices a ! i) = Inr ()"
    and "b = update_frame nft os [ChooseInterface i] a"
    and "c = update_frame nft os [] (b\<lparr>status_rx := status_rx b @ [STOPPED_MSG]\<rparr>)"
  shows "is_capturing b \<and> spawned b \<noteq> spawned a \<and> live b = [last (spawned b)]
    \<and> spawned c = spawned b \<and> \<not> is_capturing c \<and> live c = []"
proof -
  let ?a = "a\<lparr>selected_iface := i\<rparr>"
  have idle: "update_status_from_channel a = a" using assms(4) by (simp add: update_status_from_channel_def)
  have ok: "session_ok a" using assms(1) by (rule reachable_ok)
  then have ok': "session_ok ?a" using assms(3) by (auto simp: session_ok_def live_def)
  have b: "b = start_capture os (stop_capture os ?a)"
    using assms(2,3) by (simp add: assms(6) update_frame_def idle handle_event_simps
        restart_capture_for_interface_change_def)
  have opens: "\<not> is_capturing (stop_capture os ?a)"
    "selected_iface (stop_capture os ?a) < length (devices (stop_capture os ?a))"
    "os_open os (devices (stop_capture os ?a) ! selected_iface (stop_capture os ?a)) = Inr ()"
    using assms(3,5) stop_capture_stops [OF ok'] by simp_all
  have ok'': "session_ok (stop_capture os ?a)" using ok' by (rule stop_capture_ok)
  obtain t where t: "spawned b = spawned a @ [t]" "live b = [t]"
    using start_capture_live [OF ok'' opens] by (auto simp: b)
  have cap: "is_capturing b" using start_capture_opens(1) [OF opens] by (simp add: b)
  have okb: "session_ok b" unfolding b by (intro start_capture_ok ok'')
  moreover have "\<not> is_capturing c \<and> spawned c = spawned b"
    unfolding assms(7) update_frame_def
    using drain_stops [OF _ stopped_msg_prefix, of "b\<lparr>status_rx := status_rx b @ [STOPPED_MSG]\<rparr>"] by simp
  moreover have "live c = []"
  proof -
    have "session_ok (b\<lparr>status_rx := status_rx b @ [STOPPED_MSG]\<rparr>)"
      using okb session_ok_cong [OF session_update(3)] by blast
    from not_capturing_live [OF update_frame_ok [OF this, of nft os "[]"]] calculation show ?thesis
      by (simp add: assms(7))
  qed
  ultimately show ?thesis using cap t by simp
qed

definition switched_app :: "unit netmon_app" where
  "switched_app = update_frame quiet_nft desk_os [ChooseInterface 1] capturing_app"

theorem stale_stop_message_witness:
  "is_capturing switched_app \<and> live switched_app = [last (spawned switched_app)]
    \<and> \<not> is_capturing (update_frame quiet_nft desk_os []
          (switched_app\<lparr>status_rx := status_rx switched_app @ [STOPPED_MSG]\<rparr>))"
proof -
  have "devices capturing_app = [''eth0'', ''wlan0'']" "status_rx capturing_app = []"
    by (simp_all add: capturing_app_def update_frame_def handle_event_simps update_status_from_channel_def
        desk_app_def app_new_def desk_os_def start_capture_def Let_def set_status_def
        spawn_capture_thread_def)
  moreover have "os_open desk_os i = Inr ()" for i by (simp add: desk_os_def)
  ultimately show ?thesis
    using stale_stop_message [OF reachable_capturing start_on_desk _ _ _ switched_app_def refl] by simp
qed

section \<open>The filter shown\<close>

definition shown_filter :: "string option \<Rightarrow> string" where
  "shown_filter f = (case f of Some e \<Rightarrow> e | None \<Rightarrow> '''')"

lemma on_filter_report:
  "active_filter (on_status (filter_report pf e) a) = (if pf e = None then e else active_filter a)"
proof -
  have "strip_prefix ''Filter applied: '' (''BPF error: '' @ t) = None" for t
    by (simp add: strip_prefix_def starts_with_def)
  moreover have "strip_prefix ''Filter applied: '' (''Filter applied: '' @ t) = Some t" for t
    by (rule strip_prefix_append)
  ultimately show ?thesis
    by (cases "pf e")
       (simp_all add: filter_report_def on_status_def Let_def set_status_def store_flag_def
          del: append_Cons)
qed

lemma drain_filter_reports:
  "active_filter (fold on_status (map (filter_report pf) es) a)
     = shown_filter (last_accepted pf es (Some (active_filter a)))"
proof (induction es arbitrary: a)
  case Nil
  then show ?case by (simp add: last_accepted_def shown_filter_def)
next
  case (Cons e es)
  then show ?case by (simp add: on_filter_report last_accepted_def)
qed

lemma shown_last_accepted:
  "shown_filter (last_accepted pf es (Some (shown_filter f))) = shown_filter (last_accepted pf es f)"
proof (induction es arbitrary: f)
  case Nil
  then show ?case by (simp add: last_accepted_def shown_filter_def)
next
  case (Cons e es)
  show ?case
  proof (cases "pf e")
    case None
    then show ?thesis by (simp add: last_accepted_def)
  next
    case (Some m)
    with Cons [of f] show ?thesis by (simp add: last_accepted_def)
  qed
qed



text \<open>A restart installs no filter in the new capture and keeps the label of the old one.\<close>

theorem restart_keeps_filter_label:
  assumes "session_ok a" and "is_capturing a" and "os_open os (devices a ! selected_iface a) = Inr ()"
    and "devices a \<noteq> []"
  shows "active_filter (restart_capture_for_interface_change os a) = active_filter a
    \<and> (\<exists>t. spawned (restart_capture_for_interface_change os a) = spawned a @ [t]
         \<and> kernel_filter (th_start t) = None)"
  using assms start_capture_opens(2,4) [of "stop_capture os a" os] stop_capture_stops [OF assms(1)]
    session_okD(3) [OF assms(1)]
  by (simp add: restart_capture_for_interface_change_def)

end
