(* ===== verification/Gui_Control.thy ===== *)
theory Gui_Control
  imports Gui_Session Controller_Spec
begin

text \<open>
  The actions of the application that reach the packet filter: blocking the processes of a
  user, limiting a bandwidth, and shutdown; and what the ports a block is built from stand
  for.
\<close>

section \<open>Blocking a user\<close>

text \<open>The first row of each PID that belongs to the user, in the order of the table.\<close>

fun targets :: "string \<Rightarrow> u32 set \<Rightarrow> process_row list \<Rightarrow> process_row list" where
  "targets user seen [] = []"
| "targets user seen (r # rs) =
     (if pi_username (pr_info r) \<noteq> user \<or> pi_pid (pr_info r) \<in> seen then targets user seen rs
      else r # targets user (insert (pi_pid (pr_info r)) seen) rs)"

definition row_pid :: "process_row \<Rightarrow> u32" where
  "row_pid r = pi_pid (pr_info r)"

lemma targets_pids:
  "row_pid ` set (targets user seen rs) = row_pid ` {r \<in> set rs. pi_username (pr_info r) = user} - seen"
proof (induction rs arbitrary: seen)
  case (Cons r rs)
  let ?own = "\<lambda>rs. {r \<in> set rs. pi_username (pr_info r) = user}"
  show ?case
  proof (cases "pi_username (pr_info r) = user")
    case True
    then have "?own (r # rs) = insert r (?own rs)" by auto
    with Cons True show ?thesis by (auto simp: row_pid_def)
  next
    case False
    then have "?own (r # rs) = ?own rs" by auto
    with Cons False show ?thesis by simp
  qed
qed simp

lemma targets_subseq: "subseq (targets user seen rs) rs"
  by (induction user seen rs rule: targets.induct) auto

lemma targets_distinct: "distinct (map row_pid (targets user seen rs))"
proof (induction rs arbitrary: seen)
  case (Cons r rs)
  have "row_pid r \<notin> set (map row_pid (targets user (insert (pi_pid (pr_info r)) seen) rs))"
    unfolding set_map targets_pids by (simp add: row_pid_def)
  with Cons show ?case by simp
qed simp

text \<open>Blocking the rows one after the other: those that succeeded, and the controller.\<close>

fun block_all :: "'n nft_cli \<Rightarrow> os \<Rightarrow> process_row list \<Rightarrow> 'n controller \<Rightarrow> process_row list \<times> 'n controller" where
  "block_all nft os [] c = ([], c)"
| "block_all nft os (r # rs) c =
     (let (result, c) = block_process nft (os_read os) (row_pid r) (pi_name (pr_info r)) c;
          (bl, c) = block_all nft os rs c
      in (case result of Inr _ \<Rightarrow> r # bl | Inl _ \<Rightarrow> bl, c))"

lemma lock_write_comp: "lock_write f (lock_write g l) = lock_write (f \<circ> g) l"
  by (cases l) simp_all

lemma lock_write_id: "lock_write (\<lambda>x. x) l = l"
  by (cases l) simp_all

lemma block_user_rows_all:
  "block_user_rows nft os user rows seen labels errors a = (ls, es, b) \<Longrightarrow>
   block_all nft os (targets user seen rows) (ctl a) = (bl, c) \<Longrightarrow>
   ctl b = c \<and> sh_blocked (shared b) = lock_write (\<lambda>s. s \<union> row_pid ` set bl) (sh_blocked (shared a))
   \<and> length ls = length labels + length bl
   \<and> length es + length bl = length errors + length (targets user seen rows)"
proof (induction rows arbitrary: seen labels errors a bl c)
  case Nil
  then show ?case by (auto simp: lock_write_id)
next
  case (Cons row rows)
  let ?pid = "pi_pid (pr_info row)"
  show ?case
  proof (cases "pi_username (pr_info row) \<noteq> user \<or> ?pid \<in> seen")
    case True
    with Cons show ?thesis by simp
  next
    case False
    obtain result c1 where r: "block_process nft (os_read os) ?pid (pi_name (pr_info row)) (ctl a) = (result, c1)"
      by fastforce
    obtain bl1 c2 where rest: "block_all nft os (targets user (insert ?pid seen) rows) c1 = (bl1, c2)"
      by fastforce
    have dc: "bl = (case result of Inr _ \<Rightarrow> row # bl1 | Inl _ \<Rightarrow> bl1) \<and> c = c2"
      using Cons.prems(2) False r rest by (auto simp: row_pid_def)
    show ?thesis
    proof (cases result)
      case (Inl e)
      from Cons.prems(1) False r Inl
      have run: "block_user_rows nft os user rows (insert ?pid seen) labels
          (errors @ [''PID '' @ show_word ?pid @ '': '' @ e]) (a\<lparr>ctl := c1\<rparr>) = (ls, es, b)"
        by (simp add: Let_def)
      from Cons.IH [OF run, of bl1 c2] rest False dc Inl show ?thesis by simp
    next
      case (Inr u)
      from Cons.prems(1) False r Inr
      have run: "block_user_rows nft os user rows (insert ?pid seen)
          (labels @ [pi_name (pr_info row) @ '' (PID '' @ show_word ?pid @ '')'']) errors
          (mark_blocked ?pid (a\<lparr>ctl := c1\<rparr>)) = (ls, es, b)" by (simp add: Let_def)
      have "ctl (mark_blocked ?pid (a\<lparr>ctl := c1\<rparr>)) = c1"
        "sh_blocked (shared (mark_blocked ?pid (a\<lparr>ctl := c1\<rparr>))) = lock_write (insert ?pid) (sh_blocked (shared a))"
        by (simp_all add: mark_blocked_def)
      with Cons.IH [OF run, of bl1 c2] rest False dc Inr show ?thesis
        by (simp add: lock_write_comp o_def row_pid_def)
    qed
  qed
qed

text \<open>C16. Blocking a user blocks, in the order of the table, one row for each PID that has a row
  of that user, no PID twice and no other PID; the set of blocked PIDs grows by exactly
  those whose block succeeded, and the status line reports a full success only if none
  failed.\<close>

theorem block_user_exact:
  "\<exists>rows bl. subseq rows (process_rows a) \<and> distinct (map row_pid rows)
    \<and> row_pid ` set rows = row_pid ` {r \<in> set (process_rows a). pi_username (pr_info r) = user}
    \<and> block_all nft os rows (ctl a) = (bl, ctl (block_user nft os user a))
    \<and> sh_blocked (shared (block_user nft os user a))
        = lock_write (\<lambda>s. s \<union> row_pid ` set bl) (sh_blocked (shared a))
    \<and> (\<exists>labels errors msg. sh_status (shared (block_user nft os user a)) = lock_write (\<lambda>_. msg) (sh_status (shared a))
        \<and> length labels = length bl \<and> length errors = length rows - length bl
        \<and> msg = (if labels \<noteq> [] \<and> errors = [] then ''Blocked user '' @ user @ '': '' @ join_strs '', '' labels
            else if labels \<noteq> [] then ''Blocked user '' @ user @ '' with errors: '' @ join_strs ''; '' errors
            else if errors = [] then ''No active processes found for user '' @ user
            else ''Failed to block user '' @ user @ '': '' @ join_strs ''; '' errors))"
proof -
  let ?rows = "targets user {} (process_rows a)"
  obtain ls es b where run: "block_user_rows nft os user (process_rows a) {} [] [] a = (ls, es, b)"
    by (metis surj_pair)
  obtain bl c where all: "block_all nft os ?rows (ctl a) = (bl, c)" by fastforce
  have status: "sh_status (shared b) = sh_status (shared a)"
    if "block_user_rows nft os user rs seen l e a' = (ls, es, b)" "sh_status (shared a') = sh_status (shared a)"
    for rs seen l e and a' :: "'a netmon_app"
    using that by (induction rs arbitrary: seen l e a')
      (auto simp: Let_def mark_blocked_def split: prod.splits sum.splits if_splits)
  let ?msg = "if ls \<noteq> [] \<and> es = [] then ''Blocked user '' @ user @ '': '' @ join_strs '', '' ls
      else if ls \<noteq> [] then ''Blocked user '' @ user @ '' with errors: '' @ join_strs ''; '' es
      else if es = [] then ''No active processes found for user '' @ user
      else ''Failed to block user '' @ user @ '': '' @ join_strs ''; '' es"
  have b: "block_user nft os user a = set_status ?msg b" by (simp add: block_user_def run)
  have sel: "ctl (set_status m b) = ctl b" "sh_blocked (shared (set_status m b)) = sh_blocked (shared b)"
    "sh_status (shared (set_status m b)) = lock_write (\<lambda>_. m) (sh_status (shared b))" for m
    by (simp_all add: set_status_def)
  note facts = block_user_rows_all [OF run all]
  have counts: "length ls = length bl" "length es = length ?rows - length bl" using facts by auto
  show ?thesis
    unfolding b sel status [OF run refl]
  proof (rule exI [of _ ?rows], rule exI [of _ bl], intro conjI)
    show "row_pid ` set ?rows = row_pid ` {r \<in> set (process_rows a). pi_username (pr_info r) = user}"
      by (simp add: targets_pids)
    show "block_all nft os ?rows (ctl a) = (bl, ctl b)" using all facts by simp
    show "\<exists>labels errors msg. lock_write (\<lambda>_. ?msg) (sh_status (shared a)) = lock_write (\<lambda>_. msg) (sh_status (shared a))
        \<and> length labels = length bl \<and> length errors = length ?rows - length bl
        \<and> msg = (if labels \<noteq> [] \<and> errors = [] then ''Blocked user '' @ user @ '': '' @ join_strs '', '' labels
            else if labels \<noteq> [] then ''Blocked user '' @ user @ '' with errors: '' @ join_strs ''; '' errors
            else if errors = [] then ''No active processes found for user '' @ user
            else ''Failed to block user '' @ user @ '': '' @ join_strs ''; '' errors)"
      using counts by (rule_tac exI [of _ ls], rule_tac exI [of _ es], rule_tac exI [of _ ?msg]) (intro conjI refl)
    show "subseq ?rows (process_rows a)" by (rule targets_subseq)
    show "distinct (map row_pid ?rows)" by (rule targets_distinct)
    show "sh_blocked (shared b) = lock_write (\<lambda>s. s \<union> row_pid ` set bl) (sh_blocked (shared a))"
      using facts by simp
  qed
qed

section \<open>The unit of a limit\<close>

text \<open>C17. The limit the user enters in kbit/s, and is told in kbit/s, is installed in kilobytes
  per second: on a filter that behaves as documented every rule appended drops what exceeds
  that number of \<open>kbytes/second\<close>, eight times the rate announced.\<close>

theorem limit_bandwidth_unit:
  assumes "nft_documented nft chain accepts printed" and "rules_map (ctl a) = Unpoisoned m"
    and "hm_get m (sentinel pid) = None" and "marked (limit_marker pid) (chain (filter_state (ctl a))) = []"
    and "parse_dec (trim (rate_limit_kbps_input a)) = Some rate" and "0 < rate"
    and "limit_bodies (os_read os) pid rate = Some bodies" and "list_all accepts bodies"
    and "length (chain (filter_state (ctl a))) + length bodies < 2 ^ 64"
    and "b = limit_bandwidth nft os pid name a"
  shows "sh_status (shared b) = lock_write (\<lambda>_. ''Rate-limited '' @ name @ '' (PID '' @ show_word pid
        @ '') to '' @ show_word rate @ '' kbit/s'') (sh_status (shared a))
    \<and> (\<exists>new. new \<noteq> [] \<and> chain (filter_state (ctl b)) = chain (filter_state (ctl a)) @ new
        \<and> map snd new = map printed bodies
        \<and> list_all (contains (''limit rate over '' @ show_word rate @ '' kbytes/second'')) bodies)"
proof -
  obtain c' new m' where run: "rate_limit_process nft (os_read os) pid rate (ctl a) = (Inr (), c')"
    and new: "new \<noteq> []" "map snd new = map printed bodies"
      "chain (filter_state c') = chain (filter_state (ctl a)) @ new"
    using rate_limit_documented [OF assms(1-4,7-9)] by blast
  have "b = set_status (''Rate-limited '' @ name @ '' (PID '' @ show_word pid
        @ '') to '' @ show_word rate @ '' kbit/s'') (a\<lparr>ctl := c'\<rparr>)"
    using assms(6) by (simp add: assms(10) limit_bandwidth_def assms(5) run)
  then show ?thesis
    using new limit_bodies_rate [OF assms(7)] by (auto simp: set_status_def list_all_iff)
qed

definition web_os :: os where
  "web_os = desk_os\<lparr>os_read := web_proc\<rparr>"

definition limit_app :: "rule list netmon_app" where
  "limit_app = (app_new web_os (Some [''eth0'']) \<lparr>rules_map = Unpoisoned [], filter_state = [web_rule]\<rparr>)
     \<lparr>rate_limit_kbps_input := ''100''\<rparr>"

theorem limit_bandwidth_unit_witness:
  "sh_status (shared (limit_bandwidth toy_nft web_os 42 ''httpd'' limit_app))
      = Unpoisoned (''Rate-limited '' @ ''httpd'' @ '' (PID '' @ show_word (42 :: u32) @ '') to ''
          @ show_word (100 :: u32) @ '' kbit/s'')
    \<and> (\<exists>new. new \<noteq> [] \<and> toy_chain (filter_state (ctl (limit_bandwidth toy_nft web_os 42 ''httpd'' limit_app)))
        = toy_chain [web_rule] @ new)"
proof -
  let ?body = "port_body ''tcp'' {443} (''limit rate over '' @ rate_expr 100 @ '' '')
     (RULE_COMMENT_PREFIX @ show_word (42 :: u32) @ ''-rate-limit'')"
  have sel: "ctl limit_app = \<lparr>rules_map = Unpoisoned [], filter_state = [web_rule]\<rparr>"
    "rate_limit_kbps_input limit_app = ''100''" "sh_status (shared limit_app) = Unpoisoned ''Ready''"
    "os_read web_os = web_proc"
    by (simp_all add: limit_app_def app_new_def web_os_def)
  have "\<not> contains (limit_marker 42) (rule_line web_rule)" by code_simp
  then have "marked (limit_marker 42) (toy_chain (filter_state (ctl limit_app))) = []"
    by (simp add: sel marked_def toy_chain_def)
  moreover have "parse_dec (trim (rate_limit_kbps_input limit_app)) = Some (100 :: u32)"
  proof -
    have "trim ''100'' = ''100''" "show_nat 100 = ''100''" by code_simp+
    then show ?thesis using parse_dec_show_word [of "100 :: u32"] by (simp add: sel show_word_def)
  qed
  moreover have "limit_bodies (os_read web_os) 42 100 = Some [?body]"
    by (simp add: sel limit_bodies_def web_ports Let_def)
  moreover have "newline \<notin> set ?body" by code_simp
  moreover have "length (toy_chain (filter_state (ctl limit_app))) + length [?body] < 2 ^ 64"
    by (simp add: sel toy_chain_def)
  ultimately show ?thesis
    using limit_bandwidth_unit [OF toy_documented _ _ _ _ _ _ _ _ refl, of limit_app "[]" 42 100 web_os "[?body]" "''httpd''"]
    by (simp add: sel hm_get_def del: append_Cons) blast
qed

section \<open>Shutdown\<close>


definition toy_start :: "rule list netmon_app" where
  "toy_start = app_new web_os (Some [''eth0''])
     (snd (setup_nftables toy_nft \<lparr>rules_map = Unpoisoned [], filter_state = [web_rule]\<rparr>))"


section \<open>The ports of a process\<close>

text \<open>
  The file of a table under /proc/PID/net lists, after a header, one line for each socket
  of the network namespace the process is in, whoever owns it.
\<close>

definition lists_sockets ::
  "(string \<Rightarrow> string option) \<Rightarrow> u32 \<Rightarrow> string \<Rightarrow> inet_diag_msg list \<Rightarrow> bool" where
  "lists_sockets rd pid file ds \<longleftrightarrow> (\<exists>text header lines.
     rd (''/proc/'' @ show_word pid @ ''/net/'' @ file) = Some text \<and> str_lines text = header # lines
     \<and> list_all2 (\<lambda>d l. \<exists>sl middle after. split_whitespace l = proc_columns d sl middle after) ds lines)"

definition local_port :: "inet_diag_msg \<Rightarrow> u16" where
  "local_port d = u16_from_be (idiag_sport (msg_id d))"

lemma port_of_proc_addr: "parse_port_from_proc_addr (proc_addr_text family ws raw) = Some (u16_from_be raw)"
proof -
  let ?ip = "concat (map (\<lambda>w. show_hex 8 (unat w)) (proc_addr_words family ws))"
  have "\<forall>c \<in> set ?ip. c \<noteq> CHR '':''" using alnum_show_hex alnum_not(2) by fastforce
  moreover have "\<forall>c \<in> set (show_hex 4 (unat (u16_from_be raw))). c \<noteq> CHR '':''"
    using alnum_show_hex alnum_not(2) by blast
  ultimately have "split_by (\<lambda>c. c = CHR '':'') (?ip @ CHR '':'' # show_hex 4 (unat (u16_from_be raw)))
      = [?ip, show_hex 4 (unat (u16_from_be raw))]"
    by (simp add: split_by_append_sep split_by_no_sep)
  then show ?thesis
    by (simp add: parse_port_from_proc_addr_def proc_addr_text_def from_str_radix_hex4)
qed

lemma port_of_socket_line:
  "split_whitespace l = proc_columns d sl middle after \<Longrightarrow> port_of_line l = Some (local_port d)"
  by (simp add: port_of_line_def proc_columns_def PROC_NET_PORT_COLUMN_COUNT_def port_of_proc_addr local_port_def)

lemma fold_ports:
  "list_all2 (\<lambda>d l. \<exists>sl middle after. split_whitespace l = proc_columns d sl middle after) ds ls \<Longrightarrow>
   fold (\<lambda>line ports. case port_of_line line of Some port \<Rightarrow> insert port ports | None \<Rightarrow> ports) ls ports
     = ports \<union> local_port ` set ds"
  by (induction ds ls arbitrary: ports rule: list_all2_induct) (auto simp: port_of_socket_line)

text \<open>C19. The ports collected for a process are the local ports of every socket of its network
  namespace, not those of its own sockets: blocking or limiting one process of the host by
  port acts on all of them.\<close>

theorem ports_of_whole_namespace:
  assumes "lists_sockets rd pid file4 ds4" and "lists_sockets rd pid file6 ds6"
  shows "collect_pid_ports rd pid [file4, file6] = local_port ` (set ds4 \<union> set ds6)"
  using assms fold_ports
  by (fastforce simp: collect_pid_ports_def lists_sockets_def image_Un)

text \<open>A namespace whose only UDP socket is that of a DNS client.\<close>

definition dns_line :: string where
  "dns_line = proc_line ((2, hd (proc_columns dns_socket ''77:'' [''0:0'', ''0:0'', ''0'', ''102'', ''0''] [])) #
     zip [1, 1, 1, 1, 1, 1, 4, 8, 1] (tl (proc_columns dns_socket ''77:'' [''0:0'', ''0:0'', ''0'', ''102'', ''0''] [])))"

definition ns_proc :: "string \<Rightarrow> string option" where
  "ns_proc path = Some (concat (map (\<lambda>l. l @ [newline])
     (if ends_with ''/net/udp'' path then [''header'', dns_line] else [''header''])))"

lemma dns_columns_ok: "\<forall>c \<in> set (''77:'' # [''0:0'', ''0:0'', ''0'', ''102'', ''0''] @ []). column_ok c"
  by (simp add: column_ok_def is_ws_def)

lemma set_framed_columns:
  "c \<in> snd ` set ((n, hd (proc_columns d sl middle after)) # zip gaps (tl (proc_columns d sl middle after)))
   \<Longrightarrow> c \<in> set (proc_columns d sl middle after)"
  by (cases "proc_columns d sl middle after") (auto simp: proc_columns_def dest: set_zip_rightD)

lemma dns_line_one_line: "newline \<notin> set dns_line \<and> char_of (13 :: nat) \<notin> set dns_line"
proof -
  have cols: "column_ok c" if "c \<in> set (proc_columns dns_socket ''77:'' [''0:0'', ''0:0'', ''0'', ''102'', ''0''] [])" for c
    using proc_columns_ok [OF dns_columns_ok] that by blast
  have "x = CHR '' '' \<or> \<not> is_ws x" if "x \<in> set dns_line" for x
  proof -
    from that [unfolded dns_line_def, THEN proc_line_chars] show ?thesis
    proof
      assume "\<exists>c \<in> snd ` set ((2, hd (proc_columns dns_socket ''77:'' [''0:0'', ''0:0'', ''0'', ''102'', ''0''] [])) #
         zip [1, 1, 1, 1, 1, 1, 4, 8, 1] (tl (proc_columns dns_socket ''77:'' [''0:0'', ''0:0'', ''0'', ''102'', ''0''] []))). x \<in> set c"
      then show ?thesis
      proof (rule bexE)
        fix c assume c: "c \<in> snd ` set ((2, hd (proc_columns dns_socket ''77:'' [''0:0'', ''0:0'', ''0'', ''102'', ''0''] [])) #
         zip [1, 1, 1, 1, 1, 1, 4, 8, 1] (tl (proc_columns dns_socket ''77:'' [''0:0'', ''0:0'', ''0'', ''102'', ''0''] [])))"
          and x: "x \<in> set c"
        from cols [OF set_framed_columns [OF c]] x show ?thesis by (simp only: column_ok_def) blast
      qed
    qed (rule disjI1)
  qed
  moreover have "is_ws newline \<and> newline \<noteq> CHR '' ''" "is_ws (char_of (13 :: nat)) \<and> char_of (13 :: nat) \<noteq> CHR '' ''"
    by code_simp+
  ultimately show ?thesis by blast
qed

lemma dns_listed: "lists_sockets ns_proc 42 ''udp'' [dns_socket]" "lists_sockets ns_proc 42 ''udp6'' []"
proof -
  have header: "newline \<notin> set ''header'' \<and> char_of (13 :: nat) \<notin> set ''header''" by code_simp
  have v4: "ends_with ''/net/udp'' (''/proc/'' @ show_word (42 :: u32) @ ''/net/'' @ ''udp'')"
    using ends_with_append [of "''/net/udp''" "''/proc/'' @ show_word (42 :: u32)"] by simp
  have v6: "\<not> ends_with ''/net/udp'' (''/proc/'' @ show_word (42 :: u32) @ ''/net/'' @ ''udp6'')"
  proof
    assume "ends_with ''/net/udp'' (''/proc/'' @ show_word (42 :: u32) @ ''/net/'' @ ''udp6'')"
    then obtain t where "''/proc/'' @ show_word (42 :: u32) @ ''/net/'' @ ''udp6'' = t @ ''/net/udp''"
      unfolding ends_with_iff ..
    from arg_cong [OF this, of last] show False by simp
  qed
  have "split_whitespace dns_line = proc_columns dns_socket ''77:'' [''0:0'', ''0:0'', ''0'', ''102'', ''0''] []"
    unfolding dns_line_def by (rule split_proc_line [OF _ dns_columns_ok]) simp_all
  then have cols: "list_all2 (\<lambda>d l. \<exists>sl middle after. split_whitespace l = proc_columns d sl middle after)
      [dns_socket] [dns_line]" by (simp only: list_all2_Cons list_all2_Nil simp_thms) blast
  have "\<forall>l \<in> set [''header'', dns_line]. newline \<notin> set l \<and> char_of (13 :: nat) \<notin> set l"
    using header dns_line_one_line by (simp only: list.set ball_simps simp_thms)
  from str_lines_concat [OF this] v4 cols show "lists_sockets ns_proc 42 ''udp'' [dns_socket]"
    unfolding lists_sockets_def ns_proc_def by (simp only: if_True option.inject) blast
  have "\<forall>l \<in> set [''header'']. newline \<notin> set l \<and> char_of (13 :: nat) \<notin> set l"
    using header by (simp only: list.set ball_simps simp_thms)
  from str_lines_concat [OF this] v6 show "lists_sockets ns_proc 42 ''udp6'' []"
    unfolding lists_sockets_def ns_proc_def
    by (simp only: if_False option.inject) (metis list_all2_Nil)
qed

theorem ports_of_whole_namespace_witness:
  "collect_pid_ports ns_proc 42 [''udp'', ''udp6''] = {local_port dns_socket}"
  using ports_of_whole_namespace [OF dns_listed] by simp

end
