(* ===== verification/Gui_Views.thy ===== *)
theory Gui_Views
  imports Gui_Session
begin

text \<open>
  What the application shows and exports of the aggregator's snapshots: the sorted table, the
  chart, the connection list and the CSV file; the check of privileges; and the helpers the
  crate has its own copy of.
\<close>

section \<open>The sorted table\<close>

lemma total_row_cmp: "total_cmp (row_cmp col ascending)"
proof -
  have "total_cmp (cmp_column col)"
    by (cases col) (simp_all add: cmp_column_def [abs_def] total_cmp_key)
  moreover have "row_cmp col True = cmp_column col" "row_cmp col False = (\<lambda>a b. reverse (cmp_column col a b))"
    by (intro ext; simp add: row_cmp_def)+
  ultimately show ?thesis using total_cmp_reverse by (cases ascending) simp_all
qed

interpretation rows: total_cmp "row_cmp col ascending" for col ascending
  by (rule total_row_cmp)

interpretation export_rows: total_cmp export_cmp
  unfolding export_cmp_def [abs_def] by (intro total_cmp_then total_cmp_key)

lemma sorted_by_column:
  "row_cmp TxTotal True r s \<noteq> Greater \<longleftrightarrow> pr_tx_bytes r \<le> pr_tx_bytes s"
  by (simp add: row_cmp_def cmp_column_def not_less)


section \<open>The chart\<close>

definition row_histories_ok :: "process_row \<Rightarrow> bool" where
  "row_histories_ok r \<longleftrightarrow> length (pr_tx_history r) = CHART_HISTORY_SECONDS
     \<and> length (pr_rx_history r) = CHART_HISTORY_SECONDS"

lemma those_snoc: "those (xs @ [Some y]) = map_option (\<lambda>ys. ys @ [y]) (those xs)"
  by (induction xs) (auto split: option.splits simp: option.map_comp o_def)

lemma those_Some: "(\<And>i. i < n \<Longrightarrow> f i = Some (g i)) \<Longrightarrow> those (map f [0..<n]) = Some (map g [0..<n])"
proof (induction n)
  case (Suc n)
  then show ?case by (simp add: those_snoc)
qed simp

lemma add_histories_returns:
  "length acc = CHART_HISTORY_SECONDS \<Longrightarrow> length h = CHART_HISTORY_SECONDS \<Longrightarrow>
   add_histories acc h = Some (map (\<lambda>i. saturating_add (acc ! i) (h ! i)) [0..<CHART_HISTORY_SECONDS])"
  unfolding add_histories_def by (rule those_Some) simp

lemma min_add_min: "min (min (x :: nat) m + y) m = min (x + y) m"
  by linarith

lemma chart_totals_returns:
  assumes "\<forall>r \<in> set rs. row_histories_ok r"
    and "length tx = CHART_HISTORY_SECONDS" and "length rx = CHART_HISTORY_SECONDS"
  shows "\<exists>tx' rx'. chart_totals rs (tx, rx) = Some (tx', rx')
    \<and> length tx' = CHART_HISTORY_SECONDS \<and> length rx' = CHART_HISTORY_SECONDS
    \<and> (\<forall>i < CHART_HISTORY_SECONDS.
         unat (tx' ! i) = min (unat (tx ! i) + (\<Sum>r \<leftarrow> rs. unat (pr_tx_history r ! i))) (2 ^ 64 - 1)
       \<and> unat (rx' ! i) = min (unat (rx ! i) + (\<Sum>r \<leftarrow> rs. unat (pr_rx_history r ! i))) (2 ^ 64 - 1))"
  using assms
proof (induction rs arbitrary: tx rx)
  case Nil
  have "unat w \<le> 2 ^ 64 - 1" for w :: u64
  proof -
    have "unat w < 2 ^ LENGTH(64)" by (rule unsigned_less)
    then show ?thesis by simp
  qed
  with Nil show ?case by (auto simp: min_def)
next
  case (Cons r rs)
  let ?tx = "map (\<lambda>i. saturating_add (tx ! i) (pr_tx_history r ! i)) [0..<CHART_HISTORY_SECONDS]"
  let ?rx = "map (\<lambda>i. saturating_add (rx ! i) (pr_rx_history r ! i)) [0..<CHART_HISTORY_SECONDS]"
  have "chart_totals (r # rs) (tx, rx) = chart_totals rs (?tx, ?rx)"
    using Cons.prems by (simp add: add_histories_returns row_histories_ok_def)
  with Cons.IH [of ?tx ?rx] Cons.prems(1) show ?case
    by (simp add: unat_saturating_add min_add_min add.assoc)
qed

lemma draw_chart_all:
  assumes "\<forall>r \<in> set rs. row_histories_ok r"
  shows "\<exists>txs rxs. draw_chart rs None w = Some (txs, rxs)
    \<and> length txs = min (max w 1) CHART_HISTORY_SECONDS \<and> length rxs = min (max w 1) CHART_HISTORY_SECONDS
    \<and> (\<forall>i < length txs. unat (txs ! i) = min (\<Sum>r \<leftarrow> rs. unat (pr_tx_history r ! i)) (2 ^ 64 - 1)
        \<and> unat (rxs ! i) = min (\<Sum>r \<leftarrow> rs. unat (pr_rx_history r ! i)) (2 ^ 64 - 1))"
proof -
  let ?z = "replicate CHART_HISTORY_SECONDS 0" and ?w = "min (max w 1) CHART_HISTORY_SECONDS"
  obtain tx rx where t: "chart_totals rs (?z, ?z) = Some (tx, rx)"
    and len: "length tx = CHART_HISTORY_SECONDS" "length rx = CHART_HISTORY_SECONDS"
    and sums: "\<forall>i < CHART_HISTORY_SECONDS.
         unat (tx ! i) = min (\<Sum>r \<leftarrow> rs. unat (pr_tx_history r ! i)) (2 ^ 64 - 1)
       \<and> unat (rx ! i) = min (\<Sum>r \<leftarrow> rs. unat (pr_rx_history r ! i)) (2 ^ 64 - 1)"
    using chart_totals_returns [OF assms, of ?z ?z] by auto
  have pts: "those (map (idx h) [0..<?w]) = Some (map ((!) h) [0..<?w])" if "length h = CHART_HISTORY_SECONDS" for h
    using that by (intro those_Some) simp
  from t pts [OF len(1)] pts [OF len(2)] have "draw_chart rs None w = Some (map ((!) tx) [0..<?w], map ((!) rx) [0..<?w])"
    by (simp add: draw_chart_def Let_def)
  with sums show ?thesis by simp
qed

lemma chart_slots: "CHART_HISTORY_SECONDS = HISTORY_SLOTS"
  by (simp add: CHART_HISTORY_SECONDS_def HISTORY_SLOTS_def)

lemma published_rows_mset:
  "agg_ok s \<Longrightarrow> mset (published_rows blocked (connection_cache s) (conn_stats s) (stats_by_thread s))
     = mset (map (row_for blocked (conns_of (conn_stats s) (connection_cache s))) (stats_by_thread s))"
  by (simp add: published_rows_sort agg_okD(2))

lemma published_histories:
  assumes "agg_ok s" and "r \<in> set (published_rows blocked (connection_cache s) (conn_stats s) (stats_by_thread s))"
  shows "row_histories_ok r"
proof -
  have "r \<in> set (map (row_for blocked (conns_of (conn_stats s) (connection_cache s))) (stats_by_thread s))"
    using published_rows_mset [OF assms(1), of blocked] assms(2) by (metis set_mset_mset)
  then obtain k st where "(k, st) \<in> set (stats_by_thread s)"
    and r: "r = row_for blocked (conns_of (conn_stats s) (connection_cache s)) (k, st)" by auto
  then have "thread_ok k st" using agg_okD(2,4) [OF assms(1)] by (simp add: hm_get_Some_iff)
  then have "length (hist Tx st) = HISTORY_SLOTS" "length (hist Rx st) = HISTORY_SLOTS"
    unfolding thread_ok_def by blast+
  then show ?thesis by (simp add: r row_for_def row_histories_ok_def chart_slots)
qed



section \<open>Copies of helpers\<close>

lemma home_of_passwd_find:
  "home_of_passwd u lines = map_option (\<lambda>cols. cols ! 5)
     (find (\<lambda>cols. 6 \<le> length cols \<and> cols ! 0 = u) (map (split_by (\<lambda>c. c = CHR '':'')) lines))"
  by (induction lines) (auto simp: Let_def)

text \<open>The crate's own copies of the aggregator's helpers compute the same.\<close>

lemma helpers_agree:
  "user_home os = get_user_home (os_env_var os)
      (\<lambda>path. case os_read os path of Some t \<Rightarrow> Inr t | None \<Rightarrow> Inl '''')"
  "gui_sanitize_csv v = sanitize_csv v"
  "export_header = csv_header"
  "2 \<le> length h \<Longrightarrow> gui_two_second_avg h = two_second_avg h"
proof -
  show "user_home os = get_user_home (os_env_var os)
      (\<lambda>path. case os_read os path of Some t \<Rightarrow> Inr t | None \<Rightarrow> Inl '''')"
    by (simp add: user_home_def get_user_home_def home_of_passwd_find Let_def
        split: option.split sum.split)
  show "2 \<le> length h \<Longrightarrow> gui_two_second_avg h = two_second_avg h"
    by (cases h; cases "tl h")
       (auto simp: gui_two_second_avg_def two_second_avg_def SHORT_RATE_WINDOW_SECONDS_def)
qed (simp_all add: gui_sanitize_csv_def sanitize_csv_def export_header_def csv_header_def)

section \<open>The CSV export\<close>

lemma export_line_history: "export_line (history_row ts st) = history_line ts st"
  by (simp add: export_line_def history_row_def history_line_def history_fields_def helpers_agree(2))

lemma write_lines_take:
  "write_lines n ls = (length ls \<le> n, take n ls)"
  by (induction n ls rule: write_lines.induct) simp_all


definition exporting_app :: "unit netmon_app" where
  "exporting_app = desk_app\<lparr>shared := (shared desk_app)\<lparr>sh_history := Unpoisoned
     (map (\<lambda>(ts, st). history_row ts st) [(9, thread_stats_new 0 ssh_info), (8, thread_stats_new 0 ssh_info)])\<rparr>\<rparr>"


section \<open>Privileges\<close>

lemma and_bit_nonzero: "w AND push_bit n 1 \<noteq> 0 \<longleftrightarrow> bit w n" if "n < 64" for w :: u64
proof
  assume "w AND push_bit n 1 \<noteq> 0"
  then obtain m where "bit (w AND push_bit n 1) m" using bit_eq_iff [of "w AND push_bit n 1" 0] by auto
  then show "bit w n" by (auto simp: bit_simps)
next
  assume "bit w n"
  then have "bit (w AND push_bit n 1) n" using that by (auto simp: bit_simps)
  then show "w AND push_bit n 1 \<noteq> 0" by auto
qed

text \<open>The program starts exactly for root and for a process whose effective capability set,
  read from the first CapEff line of its status, has both bit 12 (CAP\_NET\_ADMIN) and bit 13
  (CAP\_NET\_RAW); otherwise it exits with code 1.\<close>

theorem privileges_exact:
  assumes "read_to_string ''/proc/self/status'' = Some text"
    and "find (starts_with ''CapEff:'') (str_lines text) = Some line"
    and "split_whitespace line = label # hex # rest"
    and "from_str_radix 16 hex = Some (cap :: u64)"
  shows "ensure_privileges_or_exit is_root read_to_string
    = (if is_root \<or> (bit cap 12 \<and> bit cap 13) then None else Some 1)"
  using assms and_bit_nonzero [of 12 cap] and_bit_nonzero [of 13 cap]
  by (simp add: ensure_privileges_or_exit_def has_required_capabilities_def Let_def)

theorem privileges_exact_witness:
  "ensure_privileges_or_exit False (\<lambda>_. Some ''CapEff: 3000'')
    = (if False \<or> (bit (0x3000 :: u64) 12 \<and> bit (0x3000 :: u64) 13) then None else Some 1)"
proof -
  have "find (starts_with ''CapEff:'') (str_lines ''CapEff: 3000'') = Some ''CapEff: 3000''"
    "split_whitespace ''CapEff: 3000'' = [''CapEff:'', ''3000'']" by code_simp+
  moreover have "from_str_radix 16 ''3000'' = Some (0x3000 :: u64)"
    by (simp add: from_str_radix_def to_digit_def)
  ultimately show ?thesis
    by (intro privileges_exact [of "\<lambda>_. Some ''CapEff: 3000''" "''CapEff: 3000''" "''CapEff: 3000''"]) simp_all
qed

end
