(* ===== verification/Addr_Text.thy ===== *)
theory Addr_Text
  imports Capture_Wire
begin

text \<open>
  How Rust prints addresses (\<open>Display\<close> of \<open>IpAddr\<close> and \<open>SocketAddr\<close> in \<open>std::net\<close>), which
  is how the connection table shows them: dotted octets; hexadecimal groups with the first
  longest run of two or more zero groups left out; an IPv4-mapped address with its last four
  octets dotted; brackets around an IPv6 address that a port follows. The text determines
  the address.
\<close>

section \<open>Printing\<close>

text \<open>\<open>{:x}\<close>\<close>

definition hex_char :: "nat \<Rightarrow> char" where
  "hex_char d = char_of (if d < 10 then 48 + d else 87 + d)"

fun show_lower_hex :: "nat \<Rightarrow> string" where
  "show_lower_hex n = (if n < 16 then [hex_char n] else show_lower_hex (n div 16) @ [hex_char (n mod 16)])"

declare show_lower_hex.simps [simp del]

definition show_group :: "u16 \<Rightarrow> string" where
  "show_group w = show_lower_hex (unat w)"

definition show_ipv4 :: "u8 \<Rightarrow> u8 \<Rightarrow> u8 \<Rightarrow> u8 \<Rightarrow> string" where
  "show_ipv4 a b c d = join_strs ''.'' (map show_word [a, b, c, d])"

fun segments :: "u8 list \<Rightarrow> u16 list" where
  "segments (a # b # os) = u16_from_be_bytes a b # segments os"
| "segments os = []"

text \<open>Spans are a start and a length; the loop keeps the longest one so far and the one it is in.\<close>

fun span_step :: "nat \<times> u16 \<Rightarrow> (nat \<times> nat) \<times> (nat \<times> nat) \<Rightarrow> (nat \<times> nat) \<times> (nat \<times> nat)" where
  "span_step (i, segment) (longest, current) =
     (if segment = 0 then
        let current = (if snd current = 0 then (i, 1) else (fst current, snd current + 1))
        in (if snd longest < snd current then current else longest, current)
      else (longest, (0, 0)))"

definition zero_span :: "u16 list \<Rightarrow> nat \<times> nat" where
  "zero_span segs = fst (fold span_step (enumerate 0 segs) ((0, 0), (0, 0)))"

definition show_groups :: "u16 list \<Rightarrow> string" where
  "show_groups segs = join_strs '':'' (map show_group segs)"

definition mapped_prefix :: "u8 list" where
  "mapped_prefix = [0, 0, 0, 0, 0, 0, 0, 0, 0, 0, 255, 255]"

definition show_ipv6 :: "u8 list \<Rightarrow> string" where
  "show_ipv6 os =
     (if take 12 os = mapped_prefix
      then ''::ffff:'' @ show_ipv4 (os ! 12) (os ! 13) (os ! 14) (os ! 15)
      else
        let segs = segments os; (start, len) = zero_span segs
        in if 1 < len
           then show_groups (take start segs) @ ''::'' @ show_groups (drop (start + len) segs)
           else show_groups segs)"

fun show_socket_addr :: "socket_addr \<Rightarrow> string" where
  "show_socket_addr (V4 a b c d, port) = show_ipv4 a b c d @ '':'' @ show_word port"
| "show_socket_addr (V6 os, port) = ''['' @ show_ipv6 os @ '']:'' @ show_word port"

section \<open>Digits\<close>

lemma of_char_hex_char: "d < 16 \<Longrightarrow> (of_char (hex_char d) :: nat) = (if d < 10 then 48 + d else 87 + d)"
  by (simp add: hex_char_def)

lemma to_digit_hex_char: "d < 16 \<Longrightarrow> to_digit 16 (hex_char d) = Some d"
  by (auto simp: to_digit_def of_char_hex_char Let_def)

lemma digits_val_show_lower_hex: "digits_val 16 (show_lower_hex n) 0 = Some n"
proof (induction n rule: show_lower_hex.induct)
  case (1 n)
  then show ?case
    by (subst show_lower_hex.simps) (auto simp: to_digit_hex_char digits_val_append)
qed

lemma show_group_inj: "show_group v = show_group w \<Longrightarrow> v = w"
  unfolding show_group_def by (metis digits_val_show_lower_hex option.inject word_unat_eq_iff)

lemma show_group_nonempty [simp]: "show_group w \<noteq> []"
  unfolding show_group_def by (subst show_lower_hex.simps) simp

lemma show_group_zero: "show_group 0 = ''0''"
proof -
  have "hex_char 0 = CHR ''0''" by code_simp
  then show ?thesis by (simp add: show_group_def show_lower_hex.simps)
qed

definition hex_digit :: "char \<Rightarrow> bool" where
  "hex_digit c \<longleftrightarrow> (let n = (of_char c :: nat) in 48 \<le> n \<and> n \<le> 57 \<or> 97 \<le> n \<and> n \<le> 102)"

lemma hex_digit_not [simp]:
  "hex_digit c \<Longrightarrow> c \<noteq> CHR '':''" "hex_digit c \<Longrightarrow> c \<noteq> CHR ''.''" "hex_digit c \<Longrightarrow> c \<noteq> CHR '']''"
  by (auto simp: hex_digit_def Let_def)

lemma hex_show_lower: "\<forall>c \<in> set (show_lower_hex n). hex_digit c"
proof (induction n rule: show_lower_hex.induct)
  case (1 n)
  have "d < 16 \<Longrightarrow> hex_digit (hex_char d)" for d
    by (auto simp: hex_digit_def of_char_hex_char Let_def)
  with 1 show ?case by (subst show_lower_hex.simps) auto
qed

lemma show_group_chars: "c \<in> set (show_group w) \<Longrightarrow> hex_digit c"
  using hex_show_lower by (auto simp: show_group_def)

lemma colon_free [simp]: "CHR '':'' \<notin> set (show_group w)"
  using show_group_chars hex_digit_not(1) by blast

lemma show_word_chars: "c \<in> set (show_word w) \<Longrightarrow> alnum c \<and> c \<noteq> CHR ''.'' \<and> c \<noteq> CHR ''[''"
proof -
  assume "c \<in> set (show_word w)"
  then have "alnum c" using alnum_show_nat by (auto simp: show_word_def)
  then show ?thesis by (auto simp: alnum_def Let_def)
qed

lemma show_word_inj: "show_word v = show_word w \<Longrightarrow> v = w"
  unfolding show_word_def using show_nat_inj word_unat_eq_iff by blast

section \<open>Splitting what was joined\<close>

lemma split_groups:
  "split_by (\<lambda>c. c = CHR '':'') (show_groups segs) = (if segs = [] then [[]] else map show_group segs)"
  unfolding show_groups_def
  by (auto intro!: split_join)

section \<open>The run of zeros\<close>

definition span_ok :: "u16 list \<Rightarrow> nat \<times> nat \<Rightarrow> bool" where
  "span_ok segs span \<longleftrightarrow> fst span + snd span \<le> length segs
     \<and> take (snd span) (drop (fst span) segs) = replicate (snd span) 0"

lemma span_ok_snoc: "span_ok segs span \<Longrightarrow> span_ok (segs @ [w]) span"
  by (auto simp: span_ok_def)

lemma zero_span_loop:
  "\<exists>longest current. fold span_step (enumerate 0 segs) ((0, 0), (0, 0)) = (longest, current)
     \<and> span_ok segs longest \<and> span_ok segs current
     \<and> (snd current = 0 \<or> fst current + snd current = length segs)"
proof (induction segs rule: rev_induct)
  case Nil
  then show ?case by (simp add: span_ok_def)
next
  case (snoc w segs)
  then obtain longest current where f: "fold span_step (enumerate 0 segs) ((0, 0), (0, 0)) = (longest, current)"
    and ok: "span_ok segs longest" "span_ok segs current"
      "snd current = 0 \<or> fst current + snd current = length segs" by blast
  show ?case
  proof (cases "w = 0")
    case True
    define current' where "current' = (if snd current = 0 then (length segs, 1)
      else (fst current, snd current + 1))"
    have "span_ok (segs @ [w]) current' \<and> fst current' + snd current' = length (segs @ [w])"
      using ok(2,3) True
      by (auto simp: span_ok_def current'_def replicate_append_same)
    then show ?thesis
      using ok(1) span_ok_snoc True
      by (auto simp: enumerate_append_eq f Let_def current'_def [symmetric])
  next
    case False
    then show ?thesis using ok(1) span_ok_snoc by (auto simp: enumerate_append_eq f span_ok_def)
  qed
qed

lemma zero_span_ok: "span_ok segs (zero_span segs)"
  using zero_span_loop [of segs] by (auto simp: zero_span_def)

lemma zero_span_split:
  assumes "zero_span segs = (start, len)"
  shows "segs = take start segs @ replicate len 0 @ drop (start + len) segs" "start + len \<le> length segs"
proof -
  from zero_span_ok [of segs] assms show "start + len \<le> length segs" by (simp add: span_ok_def)
  from zero_span_ok [of segs] assms have z: "take len (drop start segs) = replicate len 0"
    by (simp add: span_ok_def)
  have "segs = take start segs @ take len (drop start segs) @ drop len (drop start segs)"
    by (simp only: append_take_drop_id)
  then show "segs = take start segs @ replicate len 0 @ drop (start + len) segs"
    by (simp add: z add.commute)
qed

section \<open>Reading an address back\<close>

text \<open>The groups of the full form, from the text cut at its colons.\<close>

definition expand_groups :: "string list \<Rightarrow> string list" where
  "expand_groups gs =
     (if [] \<notin> set gs then gs
      else let before = takeWhile (\<lambda>g. g \<noteq> []) gs; after = rev (takeWhile (\<lambda>g. g \<noteq> []) (rev gs))
        in before @ replicate (8 - length before - length after) ''0'' @ after)"

lemma expand_split:
  assumes "\<forall>x \<in> set xs. x \<noteq> []" "\<forall>x \<in> set ys. x \<noteq> []"
  shows "expand_groups ((if xs = [] then [[]] else xs) @ [] # (if ys = [] then [[]] else ys))
    = xs @ replicate (8 - length xs - length ys) ''0'' @ ys"
proof -
  define pad :: "string list \<Rightarrow> string list" where "pad zs = (if zs = [] then [[]] else zs)" for zs
  have before: "takeWhile (\<lambda>g. g \<noteq> []) (pad xs @ [] # zs) = xs" if "\<forall>x \<in> set xs. x \<noteq> []" for xs zs
    using that by (cases "xs = []") (simp_all add: pad_def takeWhile_append)
  have "rev (pad xs @ [] # pad ys) = pad (rev ys) @ [] # pad (rev xs)" by (simp add: pad_def)
  then have "takeWhile (\<lambda>g. g \<noteq> []) (rev (pad xs @ [] # pad ys)) = rev ys"
    using before [of "rev ys"] assms(2) by simp
  with before [OF assms(1)] have "expand_groups (pad xs @ [] # pad ys)
      = xs @ replicate (8 - length xs - length ys) ''0'' @ ys"
    by (simp add: expand_groups_def Let_def del: rev_append)
  then show ?thesis by (simp only: pad_def)
qed

lemma expand_show_ipv6:
  assumes "take 12 os \<noteq> mapped_prefix" "length (segments os) = 8"
  shows "expand_groups (split_by (\<lambda>c. c = CHR '':'') (show_ipv6 os)) = map show_group (segments os)"
proof -
  let ?P = "\<lambda>c. c = CHR '':''" and ?segs = "segments os"
  obtain start len where z: "zero_span ?segs = (start, len)" by fastforce
  have ne: "[] \<notin> set (map show_group xs)" for xs
    using show_group_nonempty by (metis (no_types) imageE list.set_map)
  show ?thesis
  proof (cases "1 < len")
    case True
    let ?xs = "map show_group (take start ?segs)" and ?ys = "map show_group (drop (start + len) ?segs)"
    have "show_ipv6 os = show_groups (take start ?segs) @ CHR '':'' # CHR '':'' # show_groups (drop (start + len) ?segs)"
      using assms(1) z True by (simp add: show_ipv6_def Let_def)
    then have "split_by ?P (show_ipv6 os)
        = (if ?xs = [] then [[]] else ?xs) @ [] # (if ?ys = [] then [[]] else ?ys)"
      by (simp add: split_by_append split_groups)
    then have "expand_groups (split_by ?P (show_ipv6 os))
        = ?xs @ replicate (8 - length ?xs - length ?ys) ''0'' @ ?ys"
      using expand_split [of ?xs ?ys] by simp
    also have "8 - length ?xs - length ?ys = len"
      using zero_span_split(2) [OF z] assms(2) by simp
    also have "?xs @ replicate len ''0'' @ ?ys
        = map show_group (take start ?segs @ replicate len 0 @ drop (start + len) ?segs)"
      by (simp add: show_group_zero)
    finally show ?thesis using zero_span_split(1) [OF z] by simp
  next
    case False
    then have "split_by ?P (show_ipv6 os) = map show_group ?segs"
      using assms z by (auto simp: show_ipv6_def split_groups)
    then show ?thesis using ne by (simp add: expand_groups_def)
  qed
qed

section \<open>The text determines the address\<close>

lemma segments_bytes: "even (length os) \<Longrightarrow> concat (map u16_to_be_bytes (segments os)) = os"
  by (induction os rule: segments.induct) auto

lemma length_segments: "length (segments os) = length os div 2"
  by (induction os rule: segments.induct) auto

lemma show_ipv4_split: "split_by (\<lambda>c. c = CHR ''.'') (show_ipv4 a b c d) = map show_word [a, b, c, d]"
  unfolding show_ipv4_def using show_word_chars by (intro split_join) auto

lemma show_ipv4_inj: "show_ipv4 a b c d = show_ipv4 a' b' c' d' \<Longrightarrow> V4 a b c d = V4 a' b' c' d'"
proof -
  assume "show_ipv4 a b c d = show_ipv4 a' b' c' d'"
  then have "map show_word [a, b, c, d] = map show_word [a', b', c', d']"
    by (metis show_ipv4_split)
  then show ?thesis by (auto dest: show_word_inj)
qed

lemma show_ipv4_chars: "x \<in> set (show_ipv4 a b c d) \<Longrightarrow> x = CHR ''.'' \<or> alnum x"
  using show_word_chars by (auto simp: show_ipv4_def)

lemma show_ipv4_dot: "CHR ''.'' \<in> set (show_ipv4 a b c d)"
  by (simp add: show_ipv4_def)

lemma show_groups_chars: "x \<in> set (show_groups segs) \<Longrightarrow> x = CHR '':'' \<or> hex_digit x"
proof -
  have "x \<in> set (join_strs [d] xs) \<Longrightarrow> x = d \<or> (\<exists>y \<in> set xs. x \<in> set y)" for d xs
    by (induction "[d]" xs rule: join_strs.induct) auto
  moreover assume "x \<in> set (show_groups segs)"
  ultimately show ?thesis unfolding show_groups_def using show_group_chars by fastforce
qed

lemma show_ipv6_plain_chars:
  "take 12 os \<noteq> mapped_prefix \<Longrightarrow> x \<in> set (show_ipv6 os) \<Longrightarrow> x = CHR '':'' \<or> hex_digit x"
  by (auto simp: show_ipv6_def Let_def split: prod.splits if_splits dest: show_groups_chars)

lemma separators [simp]:
  "\<not> hex_digit (CHR ''.'')" "\<not> hex_digit (CHR '']'')" "\<not> alnum (CHR '']'')" "\<not> alnum (CHR '':'')"
  by code_simp+

lemma mapped_dot: "CHR ''.'' \<in> set (show_ipv6 os) \<longleftrightarrow> take 12 os = mapped_prefix"
proof (cases "take 12 os = mapped_prefix")
  case True
  then show ?thesis using show_ipv4_dot by (simp add: show_ipv6_def)
next
  case False
  then show ?thesis using show_ipv6_plain_chars [OF False, of "CHR ''.''"] by auto
qed

lemma show_ipv6_inj:
  assumes "show_ipv6 os = show_ipv6 os'" "length os = 16" "length os' = 16"
  shows "os = os'"
proof (cases "take 12 os = mapped_prefix")
  case True
  then have m: "take 12 os' = mapped_prefix" using assms(1) mapped_dot by metis
  have split: "xs = take 12 xs @ [xs ! 12, xs ! 13, xs ! 14, xs ! 15]" if "length xs = 16" for xs :: "u8 list"
    using that by (intro nth_equalityI) (auto simp: nth_append nth_Cons' intro!: arg_cong [of _ _ "nth xs"])
  from assms(1) True m have "show_ipv4 (os ! 12) (os ! 13) (os ! 14) (os ! 15)
      = show_ipv4 (os' ! 12) (os' ! 13) (os' ! 14) (os' ! 15)" by (simp add: show_ipv6_def)
  from show_ipv4_inj [OF this] split [OF assms(2)] split [OF assms(3)] True m show ?thesis by simp
next
  case False
  then have "take 12 os' \<noteq> mapped_prefix" using assms(1) mapped_dot by metis
  with False have "map show_group (segments os) = map show_group (segments os')"
    using expand_show_ipv6 [of os] expand_show_ipv6 [of os'] assms by (simp add: length_segments)
  then have "segments os = segments os'"
    using show_group_inj by (simp add: inj_map_eq_map inj_def)
  then show ?thesis using segments_bytes assms(2,3) by (metis even_numeral)
qed

lemma show_ipv6_chars: "CHR '']'' \<notin> set (show_ipv6 os)"
proof (cases "take 12 os = mapped_prefix")
  case True
  then show ?thesis using show_ipv4_chars [of "CHR '']''"] by (auto simp: show_ipv6_def)
next
  case False
  then show ?thesis using show_ipv6_plain_chars [OF False, of "CHR '']''"] by auto
qed

lemma cut_at:
  "xs @ c # ys = xs' @ c # ys' \<Longrightarrow> c \<notin> set xs \<Longrightarrow> c \<notin> set xs' \<Longrightarrow> xs = xs' \<and> ys = ys'"
proof (induction xs arbitrary: xs')
  case Nil
  then show ?case by (cases xs') auto
next
  case (Cons x xs)
  then show ?case by (cases xs') auto
qed

lemma show_socket_addr_inj:
  assumes "show_socket_addr a = show_socket_addr b" "ip_wf (fst a)" "ip_wf (fst b)"
  shows "a = b"
proof -
  have v4: "CHR '':'' \<notin> set (show_ipv4 a b c d)" for a b c d using show_ipv4_chars by fastforce
  have first: "hd (show_ipv4 a b c d @ rest) \<noteq> CHR ''[''" for a b c d rest
  proof -
    have "show_word a \<noteq> []" by (simp add: show_word_def)
    then obtain x xs where w: "show_word a = x # xs" by (cases "show_word a") auto
    then have "x \<noteq> CHR ''[''" using show_word_chars [of x a] by simp
    with w show ?thesis by (simp add: show_ipv4_def)
  qed
  obtain x p y q where ab: "a = (x, p)" "b = (y, q)" by (cases a, cases b) auto
  show ?thesis
  proof (cases x; cases y)
    fix a1 a2 a3 a4 b1 b2 b3 b4 assume xy: "x = V4 a1 a2 a3 a4" "y = V4 b1 b2 b3 b4"
    with assms(1) ab have "show_ipv4 a1 a2 a3 a4 @ CHR '':'' # show_word p
        = show_ipv4 b1 b2 b3 b4 @ CHR '':'' # show_word q" by simp
    from cut_at [OF this v4 v4] show ?thesis
      unfolding ab xy by (blast dest: show_ipv4_inj show_word_inj)
  next
    fix os os' assume xy: "x = V6 os" "y = V6 os'"
    with assms(1) ab have "show_ipv6 os @ CHR '']'' # CHR '':'' # show_word p
        = show_ipv6 os' @ CHR '']'' # CHR '':'' # show_word q" by simp
    from cut_at [OF this show_ipv6_chars show_ipv6_chars] xy ab assms(2,3) show ?thesis
      by (auto dest: show_ipv6_inj show_word_inj)
  next
    fix a1 a2 a3 a4 os assume "x = V4 a1 a2 a3 a4" "y = V6 os"
    with assms(1) ab have "hd (show_ipv4 a1 a2 a3 a4 @ '':'' @ show_word p) = CHR ''[''" by simp
    with first show ?thesis by blast
  next
    fix a1 a2 a3 a4 os assume "x = V6 os" "y = V4 a1 a2 a3 a4"
    with assms(1) ab have "hd (show_ipv4 a1 a2 a3 a4 @ '':'' @ show_word q) = CHR ''[''" by (metis hd_conv_nth list.sel(1) append_Cons append_Nil show_socket_addr.simps)
    with first show ?thesis by blast
  qed
qed

end
