(* ===== verification/Gui_Cells.thy ===== *)
theory Gui_Cells
  imports Gui Addr_Text Complex_Main
begin

text \<open>
  The texts of crates/gui/src/main.rs: the cells of the process table and of the connection
  table, the interface summary, the scaled numbers in them, and the points of the chart.

  An \<open>f64\<close> is the rational number it stands for. Every one in this file is a \<open>u64\<close> rounded to
  53 significant bits, half to even, and then multiplied or divided by a power of two, which
  is exact at these magnitudes. A precision in a format string rounds the exact value to
  that many decimals, half to even.
\<close>

section \<open>Floating-point numbers\<close>

definition round_half_even :: "rat \<Rightarrow> int" where
  "round_half_even x =
     (let n = \<lfloor>x\<rfloor>; r = x - of_int n in
      if r < 1 / 2 then n else if 1 / 2 < r then n + 1 else if even n then n else n + 1)"

fun f64_exponent :: "nat \<Rightarrow> nat" where
  "f64_exponent n = (if n < 2 ^ 53 then 0 else Suc (f64_exponent (n div 2)))"

declare f64_exponent.simps [simp del]

definition f64_of_u64 :: "u64 \<Rightarrow> rat" where
  "f64_of_u64 w =
     (let n = unat w; e = f64_exponent n
      in of_int (round_half_even (of_nat n / 2 ^ e)) * 2 ^ e)"

fun show_fixed :: "nat \<Rightarrow> nat \<Rightarrow> string" where
  "show_fixed 0 n = []"
| "show_fixed (Suc k) n = show_fixed k (n div 10) @ [digit_char (n mod 10)]"

definition fmt_fixed :: "nat \<Rightarrow> rat \<Rightarrow> string" where
  "fmt_fixed p x =
     (let n = nat (round_half_even (x * 10 ^ p))
      in show_nat (n div 10 ^ p) @ ''.'' @ show_fixed p (n mod 10 ^ p))"

section \<open>Scaled numbers\<close>

definition KIBI_BASE :: rat where "KIBI_BASE = 1024"
definition BITS_PER_BYTE :: rat where "BITS_PER_BYTE = 8"

definition bytes_to_kib_per_sec :: "u64 \<Rightarrow> rat" where
  "bytes_to_kib_per_sec bytes_per_sec = f64_of_u64 bytes_per_sec / KIBI_BASE"

definition format_bandwidth :: "u64 \<Rightarrow> string" where
  "format_bandwidth bytes_per_sec =
     (if bytes_per_sec < 1024 then show_word bytes_per_sec @ '' B/s''
      else if bytes_per_sec < 1024 * 1024 then fmt_fixed 1 (f64_of_u64 bytes_per_sec / KIBI_BASE) @ '' KB/s''
      else fmt_fixed 1 (f64_of_u64 bytes_per_sec / (KIBI_BASE * KIBI_BASE)) @ '' MB/s'')"

text \<open>The loop of \<open>format_scaled\<close>: \<open>left\<close> is how often it may still go round.\<close>

fun scale_value :: "nat \<Rightarrow> nat \<Rightarrow> rat \<Rightarrow> nat \<times> rat" where
  "scale_value 0 i v = (i, v)"
| "scale_value (Suc left) i v =
     (if KIBI_BASE \<le> v then scale_value left (i + 1) (v / KIBI_BASE) else (i, v))"

definition format_scaled :: "rat \<Rightarrow> string list \<Rightarrow> string" where
  "format_scaled v units =
     (let (i, v) = scale_value (length units - 1) 0 v in fmt_fixed 2 v @ '' '' @ units ! i)"

definition bit_units :: "string list" where "bit_units = [''b'', ''Kb'', ''Mb'', ''Gb'', ''Tb'']"
definition byte_units :: "string list" where "byte_units = [''B'', ''KB'', ''MB'', ''GB'', ''TB'']"

definition format_bytes_or_bits :: "u64 \<Rightarrow> bool \<Rightarrow> string" where
  "format_bytes_or_bits v bits =
     (if bits then format_scaled (f64_of_u64 v * BITS_PER_BYTE) bit_units
      else format_scaled (f64_of_u64 v) byte_units)"

section \<open>Panels\<close>

definition process_cells :: "bool \<Rightarrow> process_row \<Rightarrow> string list" where
  "process_cells in_bits row =
     [show_word (pi_pid (pr_info row)), pi_name (pr_info row), pi_username (pr_info row),
      protocol_mix_summary row,
      format_bandwidth (gui_two_second_avg (pr_tx_history row)),
      format_bandwidth (gui_two_second_avg (pr_rx_history row)),
      format_bytes_or_bits (pr_tx_bytes row) in_bits,
      format_bytes_or_bits (pr_rx_bytes row) in_bits,
      show_word (pi_tid (pr_info row)), pi_thread_name (pr_info row)]"

definition connection_header :: "string list" where
  "connection_header = [''PID'', ''TID'', ''Thread'', ''Process'', ''User'', ''Local'', ''Remote'',
     ''Proto'', ''State'', ''TX'', ''RX'']"

definition connection_cells :: "connection_entry \<Rightarrow> string list" where
  "connection_cells conn =
     [show_word (ce_pid conn), show_word (ce_tid conn), ce_thread_name conn, ce_process conn,
      ce_username conn, show_socket_addr (ce_local_addr conn), show_socket_addr (ce_remote_addr conn),
      format_protocol (ce_protocol conn), ce_state conn, show_word (ce_tx_bytes conn),
      show_word (ce_rx_bytes conn)]"

text \<open>The rows with their colours: what the tables hand to the library to draw.\<close>

datatype row_fill = BlockedProcessRowFill | Transparent
datatype text_color = BlockedRowColor | TextColor

definition process_row_view ::
  "'n netmon_app \<Rightarrow> process_row \<Rightarrow> row_fill \<times> bool \<times> row_color \<times> string list" where
  "process_row_view a row =
     (if pr_is_blocked row then BlockedProcessRowFill else Transparent,
      selected_thread a = Some (row_key row), hot_color row, process_cells (show_bits a) row)"

definition connection_row_view :: "bool \<times> connection_entry \<Rightarrow> text_color \<times> string list" where
  "connection_row_view p =
     (case p of (blocked, conn) \<Rightarrow> (if blocked then BlockedRowColor else TextColor, connection_cells conn))"

definition connection_table :: "'n netmon_app \<Rightarrow> process_row list \<Rightarrow> (text_color \<times> string list) list" where
  "connection_table a rows = map connection_row_view (collect_visible_connections a rows)"

definition virtualbox_banner :: "'n netmon_app \<Rightarrow> string option" where
  "virtualbox_banner a = (if virtualization_warning a
     then Some ''Warning: Running inside VirtualBox; promiscuous capture may be limited.'' else None)"

definition selection_header :: "'n netmon_app \<Rightarrow> process_row list \<Rightarrow> string option" where
  "selection_header a rows = map_option (\<lambda>row. ''Process: '' @ pi_name (pr_info row) @ '' (PID ''
     @ show_word (pi_pid (pr_info row)) @ '') | User: '' @ pi_username (pr_info row)) (selected_row a rows)"

definition interface_summary :: "'n netmon_app \<Rightarrow> string list" where
  "interface_summary a =
     (let interface_stats = (case lock_read (sh_interface (shared a)) of
            Some s \<Rightarrow> s | None \<Rightarrow> interface_stats_default)
      in [''TX Total: '' @ format_bytes_or_bits (is_tx_bytes_total interface_stats) (show_bits a),
          ''RX Total: '' @ format_bytes_or_bits (is_rx_bytes_total interface_stats) (show_bits a),
          ''Current BW: '' @ format_bandwidth (is_current_bandwidth interface_stats) @ ''/s'',
          ''Peak BW: '' @ format_bandwidth (is_peak_bandwidth interface_stats) @ ''/s'']
         @ (case filter_label a of Some label \<Rightarrow> [label] | None \<Rightarrow> []))"

text \<open>The two lines of the chart, as points in seconds and KiB per second.\<close>

definition chart_lines ::
  "process_row list \<Rightarrow> thread_key option \<Rightarrow> nat \<Rightarrow> ((rat \<times> rat) list \<times> (rat \<times> rat) list) option" where
  "chart_lines rows selected window_seconds = map_option (\<lambda>(tx_hist, rx_hist).
     (map (\<lambda>(i, v). (- of_nat i, bytes_to_kib_per_sec v)) (enumerate 0 tx_hist),
      map (\<lambda>(i, v). (- of_nat i, bytes_to_kib_per_sec v)) (enumerate 0 rx_hist)))
     (draw_chart rows selected window_seconds)"

text \<open>
  The panels of a frame in which the user does nothing. The wide and the narrow layout show the
  same; \<open>None\<close> for the chart would be a panic.
\<close>

record main_view =
  mv_table_header :: "string list"
  mv_table :: "(row_fill \<times> bool \<times> row_color \<times> string list) list"
  mv_chart_title :: string
  mv_chart :: "((rat \<times> rat) list \<times> (rat \<times> rat) list) option"
  mv_selected :: "string option"
  mv_selection_header :: "string option"
  mv_connection_header :: "string list"
  mv_connections :: "(text_color \<times> string list) list"

definition process_and_chart ::
  "'n netmon_app \<Rightarrow> process_row list \<Rightarrow> (row_fill \<times> bool \<times> row_color \<times> string list) list \<times> string
   \<times> ((rat \<times> rat) list \<times> (rat \<times> rat) list) option" where
  "process_and_chart a rows = (map (process_row_view a) rows,
     ''Chart (Last '' @ show_nat (chart_window_seconds a) @ ''s)'',
     chart_lines rows (selected_thread a) (chart_window_seconds a))"

definition main_panel :: "'n netmon_app \<Rightarrow> main_view" where
  "main_panel a =
     (let rows = frame_rows a; (table, title, chart) = process_and_chart a rows in
      \<lparr>mv_table_header = map fst header_columns, mv_table = table, mv_chart_title = title,
       mv_chart = chart, mv_selected = map_option selected_label (selected_row a rows),
       mv_selection_header = selection_header a rows, mv_connection_header = connection_header,
       mv_connections = connection_table a rows\<rparr>)"

definition top_panel :: "'n netmon_app \<Rightarrow> string option \<times> string \<times> string list" where
  "top_panel a = (virtualbox_banner a, interface_label a, interface_summary a)"

section \<open>What rounding keeps\<close>

lemma round_half_even_near: "\<bar>of_int (round_half_even x) - x\<bar> \<le> 1 / 2"
proof -
  have "of_int \<lfloor>x\<rfloor> \<le> x" "x < of_int \<lfloor>x\<rfloor> + 1" by linarith+
  then show ?thesis by (auto simp: round_half_even_def Let_def abs_le_iff)
qed

lemma round_half_even_of_int [simp]: "round_half_even (of_int n) = n"
  by (simp add: round_half_even_def)

lemma round_half_even_of_nat [simp]: "round_half_even (of_nat n) = int n"
  using round_half_even_of_int [of "int n"] by simp

lemma f64_exact: "unat w = n \<Longrightarrow> n < 2 ^ 53 \<Longrightarrow> f64_of_u64 w = of_nat n"
  by (simp add: f64_of_u64_def f64_exponent.simps del: of_nat_unat)

text \<open>Below 53 bits the conversion is exact; above it is off by at most one part in \<open>2 ^ 53\<close>.\<close>

lemma f64_exponent_bounds:
  "2 ^ 53 \<le> n \<Longrightarrow> 2 ^ (52 + f64_exponent n) \<le> n"
proof (induction n rule: f64_exponent.induct)
  case (1 n)
  show ?case
  proof (cases "n div 2 < 2 ^ 53")
    case True
    then have "f64_exponent n = 1" using "1.prems" by (simp add: f64_exponent.simps [of n] f64_exponent.simps [of "n div 2"])
    with "1.prems" show ?thesis by simp
  next
    case False
    with 1 have "2 ^ (52 + f64_exponent (n div 2)) \<le> n div 2" by simp
    then have "2 * 2 ^ (52 + f64_exponent (n div 2)) \<le> n" by linarith
    then show ?thesis using "1.prems" by (simp add: f64_exponent.simps [of n] power_add)
  qed
qed

lemma f64_error:
  assumes n: "unat w = n"
  shows "\<bar>f64_of_u64 w - of_nat n\<bar> \<le> of_nat n / 2 ^ 53"
proof (cases "n < 2 ^ 53")
  case True
  then show ?thesis by (simp add: f64_exact [OF n])
next
  case False
  define e where "e = f64_exponent n"
  let ?x = "of_nat n / 2 ^ e :: rat"
  have "2 ^ (52 + e) \<le> n" using f64_exponent_bounds [of n] False by (simp add: e_def)
  then have "(of_nat (2 ^ (52 + e)) :: rat) \<le> of_nat n" by (simp only: of_nat_le_iff)
  then have big: "(2 :: rat) ^ e * 2 ^ 52 \<le> of_nat n" by (simp add: power_add mult.commute)
  have "f64_of_u64 w - of_nat n = (of_int (round_half_even ?x) - ?x) * 2 ^ e"
    by (simp add: f64_of_u64_def Let_def n e_def [symmetric] field_simps)
  then have "\<bar>f64_of_u64 w - of_nat n\<bar> = \<bar>of_int (round_half_even ?x) - ?x\<bar> * 2 ^ e"
    by (simp add: abs_mult)
  also have "\<dots> \<le> 1 / 2 * 2 ^ e" using round_half_even_near by (intro mult_right_mono) auto
  also have "\<dots> \<le> of_nat n / 2 ^ 53" using big by (simp add: field_simps)
  finally show ?thesis .
qed

lemma round_half_even_mono_nat: "x \<le> of_nat n \<Longrightarrow> round_half_even x \<le> int n"
  using round_half_even_near [of x] by linarith

lemma round_half_even_ge: "of_nat n \<le> x \<Longrightarrow> int n \<le> round_half_even x"
  using round_half_even_near [of x] by linarith

text \<open>What a scaled number shows: hundredths of a power of 1024.\<close>

lemma scale_value_bounds:
  assumes "scale_value left i v = (j, u)" and "0 \<le> v" and "i = 0 \<or> 1 \<le> v"
  shows "i \<le> j \<and> j \<le> i + left \<and> v = u * 1024 ^ (j - i) \<and> 0 \<le> u \<and> (j = 0 \<or> 1 \<le> u)
    \<and> (j < i + left \<longrightarrow> u < 1024)"
  using assms
proof (induction left i v rule: scale_value.induct)
  case (2 left i v)
  show ?case
  proof (cases "KIBI_BASE \<le> v")
    case True
    have pos: "0 \<le> v / KIBI_BASE" "i + 1 = 0 \<or> 1 \<le> v / KIBI_BASE"
      using True by (simp_all add: KIBI_BASE_def)
    have "scale_value left (i + 1) (v / KIBI_BASE) = (j, u)" using "2.prems"(1) True by simp
    from "2.IH" [OF True this pos] have ih: "i + 1 \<le> j" "j \<le> i + 1 + left"
      "v / KIBI_BASE = u * 1024 ^ (j - (i + 1))" "0 \<le> u" "j = 0 \<or> 1 \<le> u" "j < i + 1 + left \<longrightarrow> u < 1024"
      by blast+
    from ih(1) have "j - i = Suc (j - (i + 1))" by simp
    moreover from ih(1,5) have "1 \<le> u" by simp
    ultimately show ?thesis using ih(1-4,6) by (simp add: KIBI_BASE_def field_simps)
  next
    case False
    with 2 show ?thesis by (auto simp: KIBI_BASE_def)
  qed
qed auto

lemma format_scaled_accurate:
  assumes "0 \<le> v" and "length units = 5"
  shows "\<exists>i n. i \<le> 4
    \<and> format_scaled v units = show_nat (n div 100) @ ''.'' @ show_fixed 2 (n mod 100) @ '' '' @ units ! i
    \<and> \<bar>of_nat n / 100 * 1024 ^ i - v\<bar> \<le> 1024 ^ i / 200
    \<and> (i = 0 \<or> 100 \<le> n) \<and> (i < 4 \<longrightarrow> n \<le> 102400)"
proof -
  obtain i u where s: "scale_value 4 0 v = (i, u)" by fastforce
  from scale_value_bounds [OF this assms(1)] have b: "i \<le> 4" "v = u * 1024 ^ i" "0 \<le> u"
    "i = 0 \<or> 1 \<le> u" "i < 4 \<longrightarrow> u < 1024" by simp_all
  define n where "n = nat (round_half_even (u * 100))"
  have pos: "0 \<le> round_half_even (u * 100)" using round_half_even_ge [of 0 "u * 100"] b(3) by simp
  then have near: "\<bar>of_nat n - u * 100\<bar> \<le> (1 / 2 :: rat)"
    using round_half_even_near [of "u * 100"] by (simp add: n_def)
  have "format_scaled v units = show_nat (n div 100) @ ''.'' @ show_fixed 2 (n mod 100) @ '' '' @ units ! i"
    using s assms(2) by (simp add: format_scaled_def fmt_fixed_def Let_def n_def)
  moreover have "\<bar>of_nat n / 100 * 1024 ^ i - v\<bar> \<le> 1024 ^ i / (200 :: rat)"
  proof -
    have eq: "of_nat n / 100 * 1024 ^ i - v = (of_nat n - u * 100) * (1024 ^ i / 100)"
      by (simp add: b(2) field_simps)
    have "\<bar>of_nat n / 100 * 1024 ^ i - v\<bar> = \<bar>of_nat n - u * 100\<bar> * (1024 ^ i / 100)"
      unfolding eq abs_mult by simp
    also have "\<dots> \<le> 1 / 2 * (1024 ^ i / 100)" using near by (intro mult_right_mono) auto
    finally show ?thesis by simp
  qed
  moreover have "i = 0 \<or> 100 \<le> n"
    using b(4) round_half_even_ge [of 100 "u * 100"] by (auto simp: n_def)
  moreover have "i < 4 \<longrightarrow> n \<le> 102400"
  proof
    assume "i < 4"
    with b(5) have "u * 100 \<le> of_nat 102400" by simp
    from round_half_even_mono_nat [OF this] show "n \<le> 102400" unfolding n_def by linarith
  qed
  ultimately show ?thesis using b(1) by (intro exI conjI)
qed

lemma fmt_fixed_accurate:
  assumes "0 \<le> v"
  shows "\<exists>n. fmt_fixed p v = show_nat (n div 10 ^ p) @ ''.'' @ show_fixed p (n mod 10 ^ p)
    \<and> \<bar>of_nat n / 10 ^ p - v\<bar> \<le> 1 / (2 * 10 ^ p)"
proof -
  define n where "n = nat (round_half_even (v * 10 ^ p))"
  have "0 \<le> round_half_even (v * 10 ^ p)" using round_half_even_ge [of 0 "v * 10 ^ p"] assms by simp
  then have near: "\<bar>of_nat n - v * 10 ^ p\<bar> \<le> (1 / 2 :: rat)"
    using round_half_even_near [of "v * 10 ^ p"] by (simp add: n_def)
  have eq: "of_nat n / 10 ^ p - v = (of_nat n - v * 10 ^ p) * (1 / 10 ^ p)" by (simp add: field_simps)
  have "\<bar>of_nat n / 10 ^ p - v\<bar> = \<bar>of_nat n - v * 10 ^ p\<bar> * (1 / 10 ^ p)"
    unfolding eq abs_mult by simp
  also have "\<dots> \<le> 1 / 2 * (1 / 10 ^ p)" using near by (intro mult_right_mono) auto
  finally have "\<bar>of_nat n / 10 ^ p - v\<bar> \<le> 1 / (2 * 10 ^ p)" by simp
  then show ?thesis by (intro exI [of _ n]) (simp add: fmt_fixed_def Let_def n_def)
qed

lemma f64_nonneg: "0 \<le> f64_of_u64 w"
proof -
  have "0 \<le> round_half_even (of_nat n / 2 ^ e)" for n e
    using round_half_even_ge [of 0 "of_nat n / 2 ^ e"] by simp
  then show ?thesis by (simp add: f64_of_u64_def Let_def del: of_nat_unat)
qed

section \<open>Properties\<close>

text \<open>C30. The totals the interface shows are accurate: the text is a number with two decimals and
  a unit, the number is at least one in any unit but the smallest, and it is off by at most
  half a hundredth of the unit, plus one part in \<open>2 ^ 53\<close> for totals a float cannot hold. The
  unit is chosen before rounding, so a total just below the next unit is shown as 1024.00 of
  the smaller one.\<close>

theorem shown_totals_accurate:
  assumes "amount = (if bits then 8 * unat w else unat w)" and "units = (if bits then bit_units else byte_units)"
  shows "\<exists>i n. format_bytes_or_bits w bits
      = show_nat (n div 100) @ ''.'' @ show_fixed 2 (n mod 100) @ '' '' @ units ! i
    \<and> \<bar>of_nat n / 100 * 1024 ^ i - (of_nat amount :: rat)\<bar> \<le> 1024 ^ i / 200 + of_nat amount / 2 ^ 53
    \<and> i \<le> 4 \<and> (i = 0 \<or> 100 \<le> n) \<and> (i = 4 \<or> n \<le> 102400)"
proof -
  define v where "v = (if bits then f64_of_u64 w * BITS_PER_BYTE else f64_of_u64 w)"
  have fmt: "format_bytes_or_bits w bits = format_scaled v units"
    by (simp add: format_bytes_or_bits_def v_def assms(2))
  have "0 \<le> v" "length units = 5"
    using f64_nonneg by (simp_all add: v_def BITS_PER_BYTE_def assms(2) bit_units_def byte_units_def)
  from format_scaled_accurate [OF this] obtain i n where n: "i \<le> 4"
    "format_scaled v units = show_nat (n div 100) @ ''.'' @ show_fixed 2 (n mod 100) @ '' '' @ units ! i"
    "\<bar>of_nat n / 100 * 1024 ^ i - v\<bar> \<le> 1024 ^ i / 200" "i = 0 \<or> 100 \<le> n" "i < 4 \<longrightarrow> n \<le> 102400"
    by (elim exE conjE)
  have err: "\<bar>v - of_nat amount\<bar> \<le> of_nat amount / (2 ^ 53 :: rat)"
  proof -
    define a where "a = (of_nat (unat w) :: rat)"
    have near: "\<bar>f64_of_u64 w - a\<bar> \<le> a / 2 ^ 53" unfolding a_def by (rule f64_error [OF refl])
    have eight: "\<bar>x - y\<bar> \<le> y / z \<Longrightarrow> \<bar>x * 8 - 8 * y\<bar> \<le> 8 * y / z" for x y z :: rat
      by (simp add: abs_le_iff)
    show ?thesis
    proof (cases bits)
      case True
      then have "v = f64_of_u64 w * 8" "of_nat amount = 8 * a"
        by (simp_all add: v_def assms(1) BITS_PER_BYTE_def a_def del: of_nat_unat)
      then show ?thesis using eight [OF near] by (simp only:)
    next
      case False
      then have "v = f64_of_u64 w" "of_nat amount = a" by (simp_all add: v_def assms(1) a_def del: of_nat_unat)
      then show ?thesis using near by (simp only:)
    qed
  qed
  have "\<bar>of_nat n / 100 * 1024 ^ i - (of_nat amount :: rat)\<bar> \<le> 1024 ^ i / 200 + of_nat amount / 2 ^ 53"
    using n(3) err by linarith
  moreover have "i = 4 \<or> n \<le> 102400" using n(1,5) by linarith
  ultimately show ?thesis using n(1,2,4) by (intro exI [of _ i] exI [of _ n] conjI) (simp_all only: fmt)
qed

theorem shown_totals_accurate_witness:
  "format_bytes_or_bits 1048575 False = ''1024.00 KB''
    \<and> (\<exists>i n. format_bytes_or_bits 1048575 False
      = show_nat (n div 100) @ ''.'' @ show_fixed 2 (n mod 100) @ '' '' @ byte_units ! i
    \<and> \<bar>of_nat n / 100 * 1024 ^ i - (of_nat 1048575 :: rat)\<bar> \<le> 1024 ^ i / 200 + of_nat 1048575 / 2 ^ 53
    \<and> i \<le> 4 \<and> (i = 0 \<or> 100 \<le> n) \<and> (i = 4 \<or> n \<le> 102400))"
proof (rule conjI)
  have "f64_of_u64 1048575 = 1048575" using f64_exact [of 1048575 1048575] by simp
  moreover have "scale_value 4 0 1048575 = (1, 1048575 / 1024)"
    by (simp add: numeral_eq_Suc KIBI_BASE_def)
  moreover have "\<lfloor>26214375 / 256 :: rat\<rfloor> = 102399" by (rule floor_unique) simp_all
  then have "round_half_even (1048575 / 1024 * 100) = 102400" by (simp add: round_half_even_def)
  then have "fmt_fixed 2 (1048575 / 1024) = show_nat 1024 @ ''.'' @ show_fixed 2 0"
    by (simp add: fmt_fixed_def)
  moreover have "show_nat 1024 @ ''.'' @ show_fixed 2 0 = ''1024.00''" by code_simp
  ultimately show "format_bytes_or_bits 1048575 False = ''1024.00 KB''"
    by (simp add: format_bytes_or_bits_def format_scaled_def byte_units_def KIBI_BASE_def)
  show "\<exists>i n. format_bytes_or_bits 1048575 False
      = show_nat (n div 100) @ ''.'' @ show_fixed 2 (n mod 100) @ '' '' @ byte_units ! i
    \<and> \<bar>of_nat n / 100 * 1024 ^ i - (of_nat 1048575 :: rat)\<bar> \<le> 1024 ^ i / 200 + of_nat 1048575 / 2 ^ 53
    \<and> i \<le> 4 \<and> (i = 0 \<or> 100 \<le> n) \<and> (i = 4 \<or> n \<le> 102400)"
    using shown_totals_accurate [of 1048575 False 1048575 byte_units] by simp
qed

definition entry_wf :: "connection_entry \<Rightarrow> bool" where
  "entry_wf c \<longleftrightarrow> ip_wf (fst (ce_local_addr c)) \<and> ip_wf (fst (ce_remote_addr c))
     \<and> (ce_protocol c = Tcp \<or> ce_protocol c = Udp)"

lemma connection_cells_inj:
  assumes "connection_cells c = connection_cells d" and "entry_wf c" and "entry_wf d"
  shows "c = d"
proof -
  from assms(1) have eq: "ce_pid c = ce_pid d" "ce_tid c = ce_tid d" "ce_thread_name c = ce_thread_name d"
    "ce_process c = ce_process d" "ce_username c = ce_username d" "ce_state c = ce_state d"
    "ce_tx_bytes c = ce_tx_bytes d" "ce_rx_bytes c = ce_rx_bytes d"
    and texts: "show_socket_addr (ce_local_addr c) = show_socket_addr (ce_local_addr d)"
      "show_socket_addr (ce_remote_addr c) = show_socket_addr (ce_remote_addr d)"
      "format_protocol (ce_protocol c) = format_protocol (ce_protocol d)"
    by (auto simp: connection_cells_def dest: show_word_inj)
  have "ce_local_addr c = ce_local_addr d" "ce_remote_addr c = ce_remote_addr d"
    using texts(1,2) assms(2,3) by (simp_all add: show_socket_addr_inj entry_wf_def)
  moreover have "ce_protocol c = ce_protocol d"
    using texts(3) assms(2,3) by (auto simp: format_protocol_def entry_wf_def)
  ultimately show ?thesis using eq by (simp add: connection_entry.equality)
qed

lemma connection_row_view_inj: "inj_on connection_row_view {p. entry_wf (snd p)}"
  by (rule inj_onI) (auto simp: connection_row_view_def split: prod.splits if_splits dest: connection_cells_inj)

lemma visible_wf:
  "\<forall>row \<in> set rows. list_all entry_wf (pr_connections row)
    \<Longrightarrow> set (collect_visible_connections a rows) \<subseteq> {p. entry_wf (snd p)}"
  by (auto simp: collect_visible_connections_def list_all_iff split: if_splits)

lemma connection_table_inj:
  assumes "connection_table a rows = connection_table b rows'"
    and "\<forall>row \<in> set rows \<union> set rows'. list_all entry_wf (pr_connections row)"
  shows "collect_visible_connections a rows = collect_visible_connections b rows'"
proof -
  have "set (collect_visible_connections a rows) \<union> set (collect_visible_connections b rows')
      \<subseteq> {p. entry_wf (snd p)}"
    using assms(2) visible_wf [of rows a] visible_wf [of rows' b] by auto
  from inj_on_subset [OF connection_row_view_inj this] assms(1) show ?thesis
    unfolding connection_table_def by (rule map_inj_on [rotated])
qed

text \<open>What a row of the process table tells of its thread.\<close>

definition row_identity :: "process_row \<Rightarrow> thread_key \<times> string \<times> string \<times> string \<times> bool" where
  "row_identity row = (row_key row, pi_name (pr_info row), pi_thread_name (pr_info row),
     pi_username (pr_info row), pr_is_blocked row)"

lemma process_row_view_identity: "process_row_view a r = process_row_view b r' \<Longrightarrow> row_identity r = row_identity r'"
  by (auto simp: process_row_view_def process_cells_def row_identity_def row_key_def
      split: if_splits dest: show_word_inj)

lemma map_views:
  "map f xs = map f' ys \<Longrightarrow> (\<And>x y. f x = f' y \<Longrightarrow> g x = g y) \<Longrightarrow> map g xs = map g ys"
proof (induction xs arbitrary: ys)
  case (Cons x xs)
  then show ?case by (cases ys) auto
qed simp

text \<open>C29. The main panel hides nothing it means to show. From its texts and colours one can read
  back which threads there are, in which order, with PID, names, user and whether they are
  blocked; and which connections are in view, in which order, with their endpoints, owners,
  states and counters.\<close>

theorem main_panel_faithful:
  assumes "main_panel a = main_panel b"
    and "\<forall>row \<in> set (frame_rows a) \<union> set (frame_rows b). list_all entry_wf (pr_connections row)"
  shows "map row_identity (frame_rows a) = map row_identity (frame_rows b)
    \<and> collect_visible_connections a (frame_rows a) = collect_visible_connections b (frame_rows b)"
proof
  have view: "map (process_row_view a) (frame_rows a) = map (process_row_view b) (frame_rows b)"
    "connection_table a (frame_rows a) = connection_table b (frame_rows b)"
    using assms(1) by (simp_all add: main_panel_def process_and_chart_def Let_def)
  show "map row_identity (frame_rows a) = map row_identity (frame_rows b)"
    using view(1) process_row_view_identity by (rule map_views)
  show "collect_visible_connections a (frame_rows a) = collect_visible_connections b (frame_rows b)"
    using view(2) assms(2) by (rule connection_table_inj)
qed

definition web_entry :: connection_entry where
  "web_entry = \<lparr>ce_local_addr = (V6 [32, 1, 13, 184, 0, 0, 0, 0, 0, 0, 0, 0, 0, 0, 0, 1], 443),
     ce_remote_addr = (V4 10 0 2 15, 40000), ce_protocol = Tcp, ce_state = ''ESTABLISHED'',
     ce_pid = 42, ce_tid = 42, ce_process = ''httpd'', ce_thread_name = ''httpd'', ce_username = ''www'',
     ce_tx_bytes = 1, ce_rx_bytes = 2\<rparr>"

definition web_row :: "connection_entry \<Rightarrow> process_row" where
  "web_row c = \<lparr>pr_info = \<lparr>pi_pid = 42, pi_tid = 42, pi_name = ''httpd'', pi_thread_name = ''httpd'',
       pi_uid = 33, pi_username = ''www''\<rparr>, pr_tx_bytes = 1, pr_rx_bytes = 2, pr_last_seen = 0,
     pr_tx_history = zero_history, pr_rx_history = zero_history, pr_is_blocked = False, pr_connections = [c]\<rparr>"

definition showing :: "process_row list \<Rightarrow> 'n netmon_app \<Rightarrow> 'n netmon_app" where
  "showing rows a = a\<lparr>selected_thread := None, shared := (shared a)\<lparr>sh_rows := Unpoisoned rows\<rparr>\<rparr>"

text \<open>Two rows that differ in the port of one connection are drawn differently.\<close>

theorem main_panel_faithful_witness:
  "\<forall>a :: unit netmon_app. main_panel (showing [web_row web_entry] a)
     \<noteq> main_panel (showing [web_row (web_entry\<lparr>ce_remote_addr := (V4 10 0 2 15, 40001)\<rparr>)] a)"
proof (intro allI notI)
  fix a :: "unit netmon_app"
  let ?a = "showing [web_row web_entry] a"
  let ?b = "showing [web_row (web_entry\<lparr>ce_remote_addr := (V4 10 0 2 15, 40001)\<rparr>)] a"
  assume same: "main_panel ?a = main_panel ?b"
  have rows: "frame_rows (showing [r] a) = [r]" for r
    by (simp add: frame_rows_def process_rows_def showing_def sorted_rows_def)
  have wf: "\<forall>row \<in> set (frame_rows ?a) \<union> set (frame_rows ?b). list_all entry_wf (pr_connections row)"
    unfolding rows by (simp add: web_row_def entry_wf_def web_entry_def)
  from main_panel_faithful [OF same wf] show False
    unfolding rows by (simp add: collect_visible_connections_def web_row_def web_entry_def showing_def)
qed

end
