(* ===== verification/Attribution.thy ===== *)
theory Attribution
  imports Aggregator_Views Capture_Loop
begin

text \<open>
  From the wire to the counters. The bytes of a frame, the datagrams of the kernel's socket
  dumps or, in their place, the tables of /proc/net, and the descriptors listed under /proc
  together decide which thread's counters a packet is added to: the parser, the netlink client
  and its fallback, the scan of /proc, the join in the resolver, the search for the owner and
  the aggregator are composed here as the program composes them.
\<close>

section \<open>A refresh that reads the kernel\<close>

definition kernel_answers :: "resolver_world \<Rightarrow> dump_reply list \<Rightarrow> bool" where
  "kernel_answers w dumps \<longleftrightarrow> length dumps = 4 \<and> list_all dump_wf dumps
     \<and> (\<exists>later. w_netlink w = \<lparr>nl_open = None, nl_send = \<lambda>_. None,
          nl_recv = concat (map dump_datagrams dumps) @ later\<rparr>)"

text \<open>The tables of /proc/net, when every row of them is accepted.\<close>

definition table_lists :: "(string \<Rightarrow> string + string) \<Rightarrow> string \<times> protocol \<times> bool \<Rightarrow> socket_entry list \<Rightarrow> bool" where
  "table_lists rd table es = (case table of (file_path, prot, is_ipv4) \<Rightarrow>
     (case rd file_path of Inl e \<Rightarrow> False
      | Inr content \<Rightarrow> map (proc_row file_path prot is_ipv4) (drop 1 (str_lines content))
          = map (\<lambda>e. Some (Inr e)) es))"

definition proc_lists :: "(string \<Rightarrow> string + string) \<Rightarrow> socket_entry list \<Rightarrow> bool" where
  "proc_lists rd es \<longleftrightarrow> (\<exists>tables. list_all2 (table_lists rd) proc_net_files tables \<and> es = concat tables)"

lemma proc_rows_entries:
  "map (proc_row f prot v4) ls = map (\<lambda>e. Some (Inr e)) es \<Longrightarrow>
   proc_rows f prot v4 ls m = Some (Inr (insert_entries es m))"
proof (induction ls arbitrary: es m)
  case (Cons l ls)
  then obtain e rest where "es = e # rest" by (cases es) auto
  with Cons show ?case by (simp add: insert_entries_def)
qed (simp add: insert_entries_def)

lemma read_proc_files_entries:
  "list_all2 (table_lists rd) fs tables \<Longrightarrow>
   read_proc_files rd fs m = Some (Inr (insert_entries (concat tables) m))"
proof (induction arbitrary: m rule: list_all2_induct)
  case (Cons x fs es tables)
  obtain f prot v4 where x: "x = (f, prot, v4)" by (cases x)
  from Cons(1) obtain content where "rd f = Inr content"
    "map (proc_row f prot v4) (drop 1 (str_lines content)) = map (\<lambda>e. Some (Inr e)) es"
    by (auto simp: table_lists_def x split: sum.splits)
  with Cons.IH show ?case by (simp add: x read_proc_file_def proc_rows_entries insert_entries_def)
qed (simp add: insert_entries_def)

text \<open>
  The sockets a refresh finds: those of the four dumps, or, when netlink fails in whatever way,
  those of the tables of /proc/net.
\<close>

definition sockets_listed :: "resolver_world \<Rightarrow> socket_entry list \<Rightarrow> bool" where
  "sockets_listed w es \<longleftrightarrow> (\<exists>dumps. kernel_answers w dumps \<and> es = dumped_entries dumps)
     \<or> (\<exists>e. query_sockets (w_netlink w) = Some (Inl e)) \<and> proc_lists (w_read_to_string w) es"

lemma refresh_from_kernel:
  assumes "sockets_listed w es" and "RESOLVER_REFRESH_PERIOD \<le> elapsed now (last_refresh c)"
  shows "refresh_if_needed now w c = Some (Inr (), refreshed now w (insert_entries es []) c)"
  using assms
  by (auto simp: sockets_listed_def kernel_answers_def refresh_if_needed_def refresh_cases query_sockets_dumps
      proc_lists_def read_proc_net_def read_proc_files_entries)

lemma insert_entries_values:
  "e \<in> set (hm_values (insert_entries es [])) \<Longrightarrow> e \<in> set es"
proof -
  have inv: "hm_invar (insert_entries es [])" unfolding insert_entries_def by (rule hm.invar_put_all) simp
  assume "e \<in> set (hm_values (insert_entries es []))"
  then obtain k where "hm_get (insert_entries es []) k = Some e"
    using inv by (auto simp: hm_values_def hm_get_Some_iff)
  then show ?thesis using find_in_set by (fastforce simp: insert_entries_get)
qed

text \<open>A socket the flow runs over, told apart from the others by its endpoints and its inode.\<close>

definition only_socket :: "flow_key \<Rightarrow> socket_entry \<Rightarrow> socket_entry list \<Rightarrow> bool" where
  "only_socket flow e es \<longleftrightarrow> e \<in> set es \<and> flow_matches flow e
     \<and> (\<forall>e' \<in> set es. flow_matches flow e' \<or> se_inode e' = se_inode e \<longrightarrow> e' = e)"

lemma only_socket_cached:
  assumes "only_socket flow e es"
  shows "hm_get (insert_entries es []) (se_inode e) = Some e"
    and "find (flow_matches flow) (hm_values (insert_entries es [])) = Some e"
proof -
  have inv: "hm_invar (insert_entries es [])" unfolding insert_entries_def by (rule hm.invar_put_all) simp
  have "find (\<lambda>x. se_inode x = se_inode e) (rev es) \<noteq> None"
    using assms by (auto simp: find_None_iff only_socket_def)
  then obtain x where x: "find (\<lambda>x. se_inode x = se_inode e) (rev es) = Some x" by blast
  from find_in_set [OF x] assms have "x = e" by (simp add: only_socket_def)
  with x show get: "hm_get (insert_entries es []) (se_inode e) = Some e"
    by (simp add: insert_entries_get)
  then have "e \<in> set (hm_values (insert_entries es []))"
    using inv by (force simp: hm_values_def hm_get_Some_iff)
  then obtain e' where e': "find (flow_matches flow) (hm_values (insert_entries es [])) = Some e'"
    using assms by (cases "find (flow_matches flow) (hm_values (insert_entries es []))")
      (auto simp: find_None_iff only_socket_def)
  then have "flow_matches flow e'" "e' \<in> set es"
    using find_in_set insert_entries_values by fast+
  with e' assms show "find (flow_matches flow) (hm_values (insert_entries es [])) = Some e"
    by (auto simp: only_socket_def)
qed

text \<open>Who holds an inode open: the last descriptor the scan meets.\<close>

definition held_by :: "procfs \<Rightarrow> u64 \<Rightarrow> inode_pid_entry \<Rightarrow> bool" where
  "held_by fs inode holder \<longleftrightarrow> find (\<lambda>x. fst x = inode) (rev (owned fs)) = Some (inode, holder)"

definition holder_info :: "uid_table \<Rightarrow> inode_pid_entry \<Rightarrow> process_info" where
  "holder_info uids holder = (case holder of (pid, tid, process_name, thread_name, uid) \<Rightarrow>
     \<lparr>pi_pid = pid, pi_tid = tid, pi_name = process_name, pi_thread_name = thread_name,
      pi_uid = uid, pi_username = username_of uids uid\<rparr>)"

lemma owner_from_kernel:
  assumes "sockets_listed w es" and "RESOLVER_REFRESH_PERIOD \<le> elapsed now (last_refresh c)"
    and "only_socket flow e es" and "held_by (w_procfs w) (se_inode e) holder"
  shows "\<exists>c'. resolve_flow_owner now w flow c = Some (Some (holder_info (uid_map c) holder), c')"
proof -
  let ?m = "insert_entries es []"
  let ?c = "refreshed now w ?m c"
  have inv: "hm_invar ?m" unfolding insert_entries_def by (rule hm.invar_put_all) simp
  have lookup: "lookup ?c i = (if hm_get ?m i = None then None
      else Some (process_info_of (insert_owned (owned (w_procfs w)) []) (uid_map c) i))" for i
    using inv by (simp add: lookup_def refreshed_def Let_def inode_process_map_get)
  have cached: "socket_entries ?c = ?m" by (simp add: refreshed_def Let_def)
  have "lookup ?c (se_inode x) \<noteq> None" if "x \<in> set (hm_values ?m)" for x
  proof -
    from that obtain k where k: "hm_get ?m k = Some x" using inv by (auto simp: hm_values_def hm_get_Some_iff)
    then have "se_inode x = k" using find_in_set by (fastforce simp: insert_entries_get)
    with k show ?thesis by (simp add: lookup)
  qed
  then have "first_owner ?c flow (hm_values ?m) = lookup ?c (se_inode e)"
    using first_owner_found [of "hm_values ?m" ?c flow] only_socket_cached(2) [OF assms(3)] by simp
  also have "\<dots> = Some (holder_info (uid_map c) holder)"
    using only_socket_cached(1) [OF assms(3)] assms(4)
    by (auto simp: lookup process_info_of_def insert_owned_get held_by_def holder_info_def split: prod.split)
  finally show ?thesis
    using refresh_from_kernel [OF assms(1,2)] by (simp add: resolve_flow_owner_def cached)
qed

section \<open>From the wire to the counters\<close>

text \<open>C1. A packet is counted for the process that owns its connection. Let the kernel list the
  socket the flow of a frame runs over, over netlink or, when that fails, in /proc/net, and
  let no other socket be confused with it, and let a
  descriptor of a thread be the last one under /proc that links to it. When the resolver is
  due to look, the bytes of the frame are parsed into a record, the record is added to the
  counters of that thread and to no other, under the name of the process, the thread and the
  user, and the row published for the thread shows the new totals.\<close>

theorem packet_counted_for_owner:
  assumes "frame_wf f" and "sockets_listed w es" and "only_socket (flow_of f) e es"
    and "held_by (w_procfs w) (se_inode e) (pid, tid, process_name, thread_name, uid)"
    and "RESOLVER_REFRESH_PERIOD \<le> elapsed now (last_refresh (ag_resolver s))" and "agg_ok s"
  shows "\<exists>rec s' st row. parse_packet at (encode_frame f) len local_ips = Some (Some rec)
    \<and> process_record now w rec s = Some s'
    \<and> hm_get (stats_by_thread s') = (hm_get (stats_by_thread s))(ThreadKey pid tid \<mapsto> st)
    \<and> info st = \<lparr>pi_pid = pid, pi_tid = tid, pi_name = process_name, pi_thread_name = thread_name,
        pi_uid = uid, pi_username = username_of (uid_map (ag_resolver s)) uid\<rparr>
    \<and> tot d st = saturating_add
        (case hm_get (stats_by_thread s) (ThreadKey pid tid) of Some old \<Rightarrow> tot d old | None \<Rightarrow> 0)
        (if d = classify_direction local_ips (src_ip (flow_of f)) (dst_ip (flow_of f)) then ucast len else 0)
    \<and> row \<in> set (published_rows blocked (connection_cache s') (conn_stats s') (stats_by_thread s'))
    \<and> row_key row = ThreadKey pid tid \<and> pr_info row = info st
    \<and> pr_tx_bytes row = tot Tx st \<and> pr_rx_bytes row = tot Rx st"
proof -
  let ?rec = "record_of at len local_ips (flow_of f)"
  define i where "i = holder_info (uid_map (ag_resolver s)) (pid, tid, process_name, thread_name, uid)"
  obtain c' where own: "resolve_flow_owner now w (flow_of f) (ag_resolver s) = Some (Some i, c')"
    using owner_from_kernel [OF assms(2,5,3,4)] unfolding i_def by blast
  define s' where "s' = apply_record now i ?rec (s\<lparr>ag_resolver := c'\<rparr>)"
  define st where "st = add_thread_bytes now i ?rec (thread_entry now i (s\<lparr>ag_resolver := c'\<rparr>))"
  have key: "info_key i = ThreadKey pid tid" by (simp add: i_def holder_info_def info_key_def)
  have parsed: "parse_packet at (encode_frame f) len local_ips = Some (Some ?rec)"
    by (rule parse_packet_encode_frame [OF assms(1)])
  have step: "process_record now w ?rec s = Some s'"
    by (simp add: process_record_def own s'_def record_of_def)
  have m: "stats_by_thread s' = hm_insert (ThreadKey pid tid) st (stats_by_thread s)"
    by (simp add: s'_def apply_record_stats key st_def)
  then have get: "hm_get (stats_by_thread s') = (hm_get (stats_by_thread s))(ThreadKey pid tid \<mapsto> st)"
    using agg_okD(2) [OF assms(6)] by (simp add: hm.get_put)
  have tot: "tot d st = saturating_add
      (case hm_get (stats_by_thread s) (ThreadKey pid tid) of Some old \<Rightarrow> tot d old | None \<Rightarrow> 0)
      (if d = classify_direction local_ips (src_ip (flow_of f)) (dst_ip (flow_of f)) then ucast len else 0)"
    by (simp add: st_def add_thread_bytes_sel thread_entry_def key bytes_of_def record_of_def
        split: option.split)
  have ok: "agg_ok s'" using process_record_ok [OF assms(6) step] .
  let ?row = "row_for blocked (conns_of (conn_stats s') (connection_cache s')) (ThreadKey pid tid, st)"
  have "(ThreadKey pid tid, st) \<in> set (stats_by_thread s')"
    using get agg_okD(2) [OF ok] by (simp add: hm_get_Some_iff [symmetric])
  then have "?row \<in> set (published_rows blocked (connection_cache s') (conn_stats s') (stats_by_thread s'))"
    using published_rows_sort [OF agg_okD(2) [OF ok]] by simp
  moreover have "info st = i" by (simp add: st_def add_thread_bytes_sel)
  ultimately show ?thesis
    using parsed step get tot
    by (intro exI [of _ ?rec] exI [of _ s'] exI [of _ st] exI [of _ ?row])
      (simp add: row_for_def row_key_def i_def holder_info_def)
qed

subsection \<open>A DNS query of a two-threaded server\<close>

definition dns_diag :: inet_diag_msg where
  "dns_diag = \<lparr>idiag_family = 2, idiag_state = 1, idiag_timer = 0, idiag_retrans = 0,
     msg_id = \<lparr>idiag_sport = 0x31D4, idiag_dport = 0x3500, idiag_src = [0x0F02000A, 0, 0, 0],
       idiag_dst = [0x08080808, 0, 0, 0], idiag_if = 0, idiag_cookie = [0, 0]\<rparr>,
     idiag_expires = 0, idiag_rqueue = 0, idiag_wqueue = 0, idiag_uid = 1000, idiag_inode = 7\<rparr>"

definition dns_dumps :: "dump_reply list" where
  "dns_dumps = [empty_dump, empty_dump\<lparr>dr_last := [((2, 1, 0), dns_diag, [])]\<rparr>, empty_dump, empty_dump]"

definition dns_entry :: socket_entry where
  "dns_entry = \<lparr>se_inode = 7, se_local_addr = (V4 10 0 2 15, 54321), se_remote_addr = (V4 8 8 8 8, 53),
     se_state = ''ESTABLISHED'', se_uid = 1000, se_protocol = Udp\<rparr>"

definition dns_world :: resolver_world where
  "dns_world = dead_world\<lparr>w_procfs := two_threads, w_netlink := \<lparr>nl_open = None, nl_send = \<lambda>_. None,
     nl_recv = concat (map dump_datagrams dns_dumps)\<rparr>\<rparr>"

definition dns_agg :: agg_state where
  "dns_agg = agg_init 0 ssh_cache None fresh_shared"

lemma dns_addresses:
  "ipv4_from_u32 (u32_from_be 0x0F02000A) = V4 10 0 2 15" "ipv4_from_u32 (u32_from_be 0x08080808) = V4 8 8 8 8"
  "u16_from_be 0x31D4 = 54321" "u16_from_be 0x3500 = 53"
  by (simp_all add: ipv4_from_u32_def u32_to_be_bytes_def u32_from_be_def u16_from_be_def u32_to_le_bytes_def
      u16_to_le_bytes_def u16_from_le_bytes_def u32_from_le_bytes_def)

lemma dns_entries: "dumped_entries dns_dumps = [dns_entry]"
  using dns_addresses
  by (simp add: dumped_entries_def dns_dumps_def dump_entries_def item_entries_def empty_dump_def
      entry_of_diag_def dns_diag_def dns_entry_def socket_addr_from_diag_def Let_def
      AF_INET_FAMILY_def AF_INET6_FAMILY_def tcp_state_to_str_def)

lemma dns_kernel: "kernel_answers dns_world dns_dumps"
  unfolding kernel_answers_def
  by (intro conjI exI [of _ "[]"])
    (simp_all add: dns_world_def dns_dumps_def dump_wf_def empty_dump_def item_wf_def item_message_def
      done_message_def nl_wf_def diag_wf_def dns_diag_def diag_msg_roundtrip(1) del: append_diag_msg_def)

lemma dns_sockets_listed: "sockets_listed dns_world (dumped_entries dns_dumps)"
  using dns_kernel by (auto simp: sockets_listed_def)

lemma dns_holder:
  "held_by (w_procfs dns_world) (se_inode dns_entry) (42, 43, ''srv'', thread_name_of two_threads 42 43 ''srv'', 1000)"
proof -
  have one: "listing two_threads ''/proc'' = [''42'']" "listing two_threads ''/proc/42/task'' = [''42'', ''43'']"
    by (simp_all add: listing_def two_threads_def map_filter_simps)
  have "owned two_threads = map (\<lambda>i. (i, (42, 42, ''srv'', thread_name_of two_threads 42 42 ''srv'', 1000)))
        (fd_inodes two_threads ''/proc/42/task/42/fd'')
      @ [(7, (42, 43, ''srv'', thread_name_of two_threads 42 43 ''srv'', 1000))]"
    by (simp add: owned_def one process_owned_def parse_42 two_threads_facts path_join_def Let_def task_owned_def)
  then show ?thesis by (simp add: held_by_def dns_world_def dns_entry_def)
qed

theorem packet_counted_for_owner_witness:
  "\<exists>rec s' st row. parse_packet 7 dns_frame 42 [] = Some (Some rec)
    \<and> process_record 2000000000 dns_world rec dns_agg = Some s'
    \<and> hm_get (stats_by_thread s') = [ThreadKey 42 43 \<mapsto> st]
    \<and> pi_name (info st) = ''srv'' \<and> pi_username (info st) = ''ann'' \<and> tot Tx st = 42
    \<and> row \<in> set (published_rows {} (connection_cache s') (conn_stats s') (stats_by_thread s'))
    \<and> row_key row = ThreadKey 42 43 \<and> pr_tx_bytes row = 42"
proof -
  have "parse_packet 7 dns_frame 42 [] = Some (Some (record_of 7 42 [] dns_key))"
    using dns_pass by (auto simp: parsed_of_def quiet_pass_def record_of_def classify_direction_def split: option.splits)
  from parse_packet_accepts [OF this] obtain f where f: "frame_wf f" "dns_frame = encode_frame f"
    "flow_of f = dns_key"
    by (auto simp: record_of_def)
  have only: "only_socket (flow_of f) dns_entry (dumped_entries dns_dumps)"
    by (simp add: f(3) only_socket_def dns_entries flow_matches_def dns_entry_def dns_key_def)
  have due: "RESOLVER_REFRESH_PERIOD \<le> elapsed 2000000000 (last_refresh (ag_resolver dns_agg))"
    by (simp add: dns_agg_def agg_init_def ssh_cache_def elapsed_def RESOLVER_REFRESH_PERIOD_def from_secs_def)
  have ok: "agg_ok dns_agg" unfolding dns_agg_def using agg_init_ok [OF ssh_cache_ok] by blast
  have start: "hm_get (stats_by_thread dns_agg) = Map.empty"
    by (auto simp: dns_agg_def agg_init_def hm_get_def)
  have user: "username_of (uid_map (ag_resolver dns_agg)) 1000 = ''ann''"
    by (simp add: dns_agg_def agg_init_def ssh_cache_def username_of_def hm_get_def)
  have dir: "classify_direction [] a b = Tx" for a b by (simp add: classify_direction_def)
  have sum: "saturating_add 0 (42 :: u64) = 42" by (simp add: saturating_add_def)
  from packet_counted_for_owner [OF f(1) dns_sockets_listed only dns_holder due ok, of 7 42 "[]" Tx "{}"]
  show ?thesis
    by (elim exE conjE) (intro exI conjI, auto simp: f(2) start user dir sum)
qed

end
