(* ===== verification/Ledger.thy ===== *)
theory Ledger
  imports Attribution
begin

text \<open>
  What the counters of the aggregator amount to. Its specification is a ledger: an account
  per thread and per connection, with unbounded sums up to the limit of a 64-bit counter,
  and two kinds of event, a credit for a record and an expiry. Hash maps, the histories, the
  resolver, the marking of exited threads, the rotation and the publication have no place in
  it; the refinement says that the aggregator is the ledger replayed over its records.
\<close>

section \<open>The ledger\<close>

record account =
  acc_sent :: nat
  acc_received :: nat
  acc_seen :: instant

record ledger =
  lg_threads :: "thread_key \<Rightarrow> account option"
  lg_connections :: "connection_key \<Rightarrow> account option"

datatype ledger_event =
    Credit instant thread_key connection_key direction nat
  | Expire instant

definition counter_max :: nat where
  "counter_max = 2 ^ 64 - 1"

definition credit_account :: "instant \<Rightarrow> direction \<Rightarrow> nat \<Rightarrow> account option \<Rightarrow> account" where
  "credit_account now d bytes old =
     (let a = (case old of Some a \<Rightarrow> a | None \<Rightarrow> \<lparr>acc_sent = 0, acc_received = 0, acc_seen = now\<rparr>);
          a = a\<lparr>acc_seen := now\<rparr>
      in case d of
        Tx \<Rightarrow> a\<lparr>acc_sent := min (acc_sent a + bytes) counter_max\<rparr>
      | Rx \<Rightarrow> a\<lparr>acc_received := min (acc_received a + bytes) counter_max\<rparr>)"

definition fresh_account :: "instant \<Rightarrow> account \<Rightarrow> bool" where
  "fresh_account now a \<longleftrightarrow> elapsed now (acc_seen a) \<le> from_secs 30"

definition keep_if :: "('a \<Rightarrow> bool) \<Rightarrow> 'a option \<Rightarrow> 'a option" where
  "keep_if P x = (case x of Some a \<Rightarrow> if P a then Some a else None | None \<Rightarrow> None)"

fun apply_event :: "ledger_event \<Rightarrow> ledger \<Rightarrow> ledger" where
  "apply_event (Credit now tk ck d bytes) l = l\<lparr>
     lg_threads := (lg_threads l)(tk \<mapsto> credit_account now d bytes (lg_threads l tk)),
     lg_connections := (lg_connections l)(ck \<mapsto> credit_account now d bytes (lg_connections l ck))\<rparr>"
| "apply_event (Expire now) l =
     (let threads = (\<lambda>k. keep_if (fresh_account now) (lg_threads l k)) in
      \<lparr>lg_threads = threads,
       lg_connections = (\<lambda>k. keep_if (\<lambda>a. fresh_account now a \<and> threads (thread_of k) \<noteq> None)
         (lg_connections l k))\<rparr>)"

section \<open>What the aggregator shows of it\<close>

definition thread_account :: "thread_stats \<Rightarrow> account" where
  "thread_account st = \<lparr>acc_sent = unat (tx_bytes_total st), acc_received = unat (rx_bytes_total st),
     acc_seen = last_seen st\<rparr>"

definition connection_account :: "connection_stats \<Rightarrow> account" where
  "connection_account c = \<lparr>acc_sent = unat (cs_tx_bytes c), acc_received = unat (cs_rx_bytes c),
     acc_seen = cs_last_seen c\<rparr>"

definition ledger_of :: "agg_state \<Rightarrow> ledger" where
  "ledger_of s = \<lparr>lg_threads = (\<lambda>k. map_option thread_account (hm_get (stats_by_thread s) k)),
     lg_connections = (\<lambda>k. map_option connection_account (hm_get (conn_stats s) k))\<rparr>"

text \<open>The owner \<open>process_record\<close> finds for a record.\<close>

definition record_owner :: "instant \<Rightarrow> resolver_world \<Rightarrow> flow_record \<Rightarrow> agg_state \<Rightarrow> process_info" where
  "record_owner now w rec s =
     (case resolve_flow_owner now w (fr_key rec) (ag_resolver s) of
        Some (Some i, _) \<Rightarrow> i
      | _ \<Rightarrow> (case lookup_process_from_connections (fr_key rec) (connection_cache s) of
          Some i \<Rightarrow> i | None \<Rightarrow> unknown_process))"

definition credit_of :: "instant \<Rightarrow> process_info \<Rightarrow> flow_record \<Rightarrow> ledger_event" where
  "credit_of now i rec = Credit now (info_key i) (connection_key_of rec i (fr_direction rec = Tx))
     (fr_direction rec) (unat (byte_count rec))"

text \<open>The events of a drain, of an iteration and of a run.\<close>

fun drain_log :: "(instant \<times> resolver_world \<times> flow_record) list \<Rightarrow> agg_state \<Rightarrow> ledger_event list" where
  "drain_log [] s = []"
| "drain_log ((now, w, rec) # rs) s = credit_of now (record_owner now w rec s) rec
     # (case process_record now w rec s of Some s \<Rightarrow> drain_log rs s | None \<Rightarrow> [])"

definition iteration_log :: "tick \<Rightarrow> agg_state \<Rightarrow> ledger_event list" where
  "iteration_log t s = (case refresh_connection_cache_if_due (t_now t) (t_world t) s of
     Some s \<Rightarrow> drain_log (t_records t) s | None \<Rightarrow> []) @ [Expire (t_after t)]"

fun run_log :: "tick list \<Rightarrow> agg_state \<Rightarrow> ledger_event list" where
  "run_log [] s = []"
| "run_log (t # ts) s = iteration_log t s
     @ (case agg_iteration t s of Some s \<Rightarrow> run_log ts s | None \<Rightarrow> [])"

text \<open>The records behind the credits of a log.\<close>

fun credited :: "ledger_event list \<Rightarrow> (direction \<times> nat) list" where
  "credited [] = []"
| "credited (Credit now tk ck d bytes # es) = (d, bytes) # credited es"
| "credited (Expire now # es) = credited es"

lemma credited_append [simp]: "credited (xs @ ys) = credited xs @ credited ys"
  by (induction xs rule: credited.induct) simp_all

section \<open>The refinement, operation by operation\<close>

lemma thread_account_cases:
  "thread_account st = \<lparr>acc_sent = unat (tot Tx st), acc_received = unat (tot Rx st), acc_seen = last_seen st\<rparr>"
  "connection_account c = \<lparr>acc_sent = unat (cbytes Tx c), acc_received = unat (cbytes Rx c),
     acc_seen = cs_last_seen c\<rparr>"
  by (simp_all add: thread_account_def connection_account_def)

lemma ledger_of_cong:
  "stats_by_thread s' = stats_by_thread s \<Longrightarrow> conn_stats s' = conn_stats s \<Longrightarrow> ledger_of s' = ledger_of s"
  by (simp add: ledger_of_def)

lemma credited_thread:
  "thread_account (add_thread_bytes now i rec (thread_entry now i s))
     = credit_account now (fr_direction rec) (unat (byte_count rec)) (lg_threads (ledger_of s) (info_key i))"
  by (cases "fr_direction rec"; cases "hm_get (stats_by_thread s) (info_key i)")
    (simp_all add: thread_account_cases add_thread_bytes_sel unat_saturating_add credit_account_def
      ledger_of_def thread_entry_def counter_max_def del: tot.simps)

lemma apply_record_refines:
  "ledger_of (apply_record now i rec s) = apply_event (credit_of now i rec) (ledger_of s)"
proof -
  let ?tx = "fr_direction rec = Tx"
  let ?ck = "connection_key_of rec i ?tx"
  obtain c where c: "update_connection_stats now rec i (bytes_of rec) ?tx (conn_stats s)
      = hm_insert ?ck c (conn_stats s)" "cs_last_seen c = now"
    and b: "\<forall>d. cbytes d c = (if d = fr_direction rec
       then saturating_add (cbytes d (conn_entry now ?ck (conn_stats s))) (bytes_of rec)
       else cbytes d (conn_entry now ?ck (conn_stats s)))"
    using update_connection_stats_insert by blast
  have zero: "cbytes d \<lparr>cs_tx_bytes = 0, cs_rx_bytes = 0, cs_last_seen = now\<rparr> = 0" for d
    by (cases d) simp_all
  have "connection_account c
      = credit_account now (fr_direction rec) (unat (byte_count rec)) (lg_connections (ledger_of s) ?ck)"
    by (cases "fr_direction rec"; cases "hm_get (conn_stats s) ?ck")
      (simp_all add: thread_account_cases b c(2) unat_saturating_add credit_account_def ledger_of_def
        conn_entry_def counter_max_def zero del: cbytes.simps)
  then show ?thesis
    by (auto simp: ledger_of_def apply_record_stats apply_record_conns c(1) hm_get_insert credit_of_def
        credited_thread [unfolded ledger_of_def])
qed

lemma process_record_refines:
  assumes "process_record now w rec s = Some s'"
  shows "ledger_of s' = apply_event (credit_of now (record_owner now w rec s) rec) (ledger_of s)"
proof -
  obtain owner r where own: "resolve_flow_owner now w (fr_key rec) (ag_resolver s) = Some (owner, r)"
    and s': "s' = apply_record now (record_owner now w rec s) rec (s\<lparr>ag_resolver := r\<rparr>)"
    using assms by (auto simp: process_record_def bind_eq_Some_conv Let_def record_owner_def split: option.splits)
  show ?thesis
    unfolding s' apply_record_refines by (simp add: ledger_of_cong [of "s\<lparr>ag_resolver := r\<rparr>" s])
qed

lemma drain_refines:
  "drain_flow_channel rs s = Some s' \<Longrightarrow>
   ledger_of s' = fold apply_event (drain_log rs s) (ledger_of s)
   \<and> credited (drain_log rs s) = map (\<lambda>r. (fr_direction r, unat (byte_count r))) (records_of rs)"
proof (induction rs s rule: drain_log.induct)
  case (2 now w rec rs s)
  then obtain s1 where s1: "process_record now w rec s = Some s1" "drain_flow_channel rs s1 = Some s'"
    by (auto simp: bind_eq_Some_conv)
  with 2 process_record_refines [OF s1(1)] show ?case by (simp add: records_of_def credit_of_def)
qed (simp add: records_of_def)

lemma evict_prune_refines:
  assumes "agg_ok s"
  shows "ledger_of (evict_prune now s) = apply_event (Expire now) (ledger_of s)"
proof -
  have timeout: "PROCESS_EVICTION_TIMEOUT = from_secs 30" by (simp add: PROCESS_EVICTION_TIMEOUT_def)
  show ?thesis
    using agg_okD(2,3) [OF assms]
    by (simp add: ledger_of_def evict_prune_def evict_stale_threads_def prune_connection_stats_def
        hm_get_retain keep_if_def fresh_account_def thread_account_def connection_account_def
        timeout thread_of_def fun_eq_iff Let_def split: option.split)
qed

lemma ledger_of_map:
  assumes "stats_by_thread s' = hm_map f (stats_by_thread s)" and "conn_stats s' = conn_stats s"
    and "\<And>k st. thread_account (f k st) = thread_account st"
  shows "ledger_of s' = ledger_of s"
  using assms by (simp add: ledger_of_def hm_get_map option.map_comp comp_def)

lemma mark_exited_refines:
  assumes "mark_exited_threads now w s = Some s'"
  shows "ledger_of s' = ledger_of s"
proof -
  have "thread_account (mark_in seen k st) = thread_account st" for seen k st
    by (simp add: thread_account_cases(1) del: tot.simps)
  then show ?thesis
    using assms by (elim mark_exited_threads_cases) (simp add: ledger_of_map)
qed

lemma rotate_refines:
  assumes "agg_ok s"
  shows "ledger_of (after_rotation t (rotate_histories_if_due now s)) = ledger_of s"
proof -
  obtain rotated s' where p: "rotate_histories_if_due now s = (rotated, s')" by fastforce
  have "ledger_of s' = ledger_of s"
  proof (cases rotated)
    case True
    have "thread_account (rotate_second st) = thread_account st" for st
      by (simp add: thread_account_def rotate_second_def)
    moreover from True p have "rotate_histories_if_due now s = (True, s')" by simp
    ultimately show ?thesis using rotate_sel(1,2) [OF assms] by (metis ledger_of_map)
  next
    case False
    with p rotate_due [of now s] rotate_not_due [of now s] show ?thesis by fastforce
  qed
  moreover have "ledger_of (after_rotation t (rotated, s')) = ledger_of s'"
    by (auto intro!: ledger_of_cong simp: after_rotation_def publish_snapshots_def append_history_csv_def Let_def
        split: option.split)
  ultimately show ?thesis by (simp add: p)
qed

lemma iteration_refines:
  assumes "agg_ok s" and "agg_iteration t s = Some s'"
  shows "ledger_of s' = fold apply_event (iteration_log t s) (ledger_of s)
    \<and> credited (iteration_log t s)
      = map (\<lambda>r. (fr_direction r, unat (byte_count r))) (records_of (t_records t))"
proof -
  obtain s1 s2 s3 where st: "refresh_connection_cache_if_due (t_now t) (t_world t) s = Some s1"
      "drain_flow_channel (t_records t) s1 = Some s2"
      "mark_exited_threads (t_after t) (t_world t) s2 = Some s3"
    and s': "s' = after_rotation t (rotate_histories_if_due (t_after t) (evict_prune (t_after t) s3))"
    using assms(2) by (rule agg_iteration_steps)
  have ok: "agg_ok s3"
    using refresh_cache_ok [OF assms(1) st(1)] st(2,3) by (blast intro: drain_ok mark_exited_ok)
  have first: "ledger_of s1 = ledger_of s"
    by (rule refresh_cache_cases [OF st(1)]) (simp add: ledger_of_def)
  have "ledger_of s' = apply_event (Expire (t_after t)) (ledger_of s2)"
    unfolding s' rotate_refines [OF evict_prune_ok [OF ok]] evict_prune_refines [OF ok]
      mark_exited_refines [OF st(3)] ..
  with drain_refines [OF st(2)] first st(1) show ?thesis
    by (simp add: iteration_log_def del: apply_event.simps)
qed

lemma run_refines:
  "agg_ok s \<Longrightarrow> run_agg_iterations ts s = Some s' \<Longrightarrow>
   ledger_of s' = fold apply_event (run_log ts s) (ledger_of s)
   \<and> credited (run_log ts s) = map (\<lambda>r. (fr_direction r, unat (byte_count r))) (all_records ts)"
proof (induction ts arbitrary: s)
  case (Cons t ts)
  then obtain s1 where s1: "agg_iteration t s = Some s1" "run_agg_iterations ts s1 = Some s'"
    by (auto simp: bind_eq_Some_conv)
  with Cons.IH [OF agg_iteration_ok [OF Cons.prems(1) s1(1)] s1(2)] iteration_refines [OF Cons.prems(1) s1(1)]
  show ?case by (simp add: all_records_def)
qed (simp add: all_records_def)

section \<open>The rows\<close>

lemma drain_rows: "drain_flow_channel rs s = Some s' \<Longrightarrow> rows_snapshot s' = rows_snapshot s"
proof (induction rs arbitrary: s)
  case (Cons x rs)
  obtain now w rec where x: "x = (now, w, rec)" by (cases x)
  with Cons.prems obtain s1 where s1: "process_record now w rec s = Some s1" "drain_flow_channel rs s1 = Some s'"
    by (auto simp: bind_eq_Some_conv)
  have "rows_snapshot s1 = rows_snapshot s"
    by (rule process_record_cases [OF s1(1)]) (simp add: apply_record_def Let_def split: direction.split)
  with Cons.IH [OF s1(2)] show ?case by simp
qed simp

lemma rotate_rows: "rows_snapshot (snd (rotate_histories_if_due now s)) = rows_snapshot s"
  by (simp add: rotate_histories_if_due_def rotate_interface_second_def Let_def)

lemma rows_account:
  assumes "agg_ok s"
  shows "lg_threads (ledger_of s) = map_of (map (\<lambda>row. (row_key row,
      \<lparr>acc_sent = unat (pr_tx_bytes row), acc_received = unat (pr_rx_bytes row),
       acc_seen = pr_last_seen row\<rparr>))
     (published_rows blocked (connection_cache s) (conn_stats s) (stats_by_thread s)))"
    (is "_ = map_of (map ?g ?rows)")
proof -
  let ?f = "row_for blocked (conns_of (conn_stats s) (connection_cache s))"
  let ?m = "stats_by_thread s"
  have inv: "hm_invar ?m" and tok: "\<forall>k st. hm_get ?m k = Some st \<longrightarrow> thread_ok k st"
    using agg_okD(2,4) [OF assms] by auto
  have rows: "mset ?rows = mset (map ?f ?m)" using published_rows_sort [OF inv] by simp
  have g: "map ?g (map ?f ?m) = map (\<lambda>(k, st). (k, thread_account st)) ?m"
    using row_keys [OF tok inv] by (auto simp: row_for_def thread_account_def map_eq_conv)
  have set: "set (map ?g ?rows) = set (map (\<lambda>(k, st). (k, thread_account st)) ?m)"
  proof -
    have "set ?rows = set (map ?f ?m)" using rows by (rule mset_eq_setD)
    then show ?thesis unfolding g [symmetric] by (simp only: set_map)
  qed
  have keys: "map fst (map ?g xs) = map row_key xs" for xs by simp
  have d: "distinct (map fst (map ?g ?rows))"
  proof -
    have "mset (map row_key ?rows) = mset (map row_key (map ?f ?m))" using rows by (metis mset_map)
    then show ?thesis
      unfolding keys row_keys [OF tok inv] using inv by (metis hm_invar_def mset_eq_imp_distinct_iff)
  qed
  have d': "distinct (map fst (map (\<lambda>(k, st). (k, thread_account st)) ?m))"
    using inv by (simp add: hm_invar_def comp_def split_def)
  have "lg_threads (ledger_of s) = map_of (map (\<lambda>(k, st). (k, thread_account st)) ?m)"
    unfolding map_of_map by (simp add: ledger_of_def hm_get_def comp_def)
  also have "\<dots> = map_of (map ?g ?rows)" using map_of_inject_set [OF d' d] set by blast
  finally show ?thesis .
qed

lemma iteration_rows:
  assumes "agg_ok s" and "agg_iteration t s = Some s'"
  shows "\<exists>blocked. rows_snapshot s' = lock_write
    (\<lambda>_. published_rows blocked (connection_cache s') (conn_stats s') (stats_by_thread s')) (rows_snapshot s)"
proof -
  obtain s1 s2 s3 where st: "refresh_connection_cache_if_due (t_now t) (t_world t) s = Some s1"
      "drain_flow_channel (t_records t) s1 = Some s2"
      "mark_exited_threads (t_after t) (t_world t) s2 = Some s3"
    and s': "s' = after_rotation t (rotate_histories_if_due (t_after t) (evict_prune (t_after t) s3))"
    using assms(2) by (rule agg_iteration_steps)
  have "rows_snapshot s1 = rows_snapshot s" by (rule refresh_cache_cases [OF st(1)]) simp
  moreover have "rows_snapshot s3 = rows_snapshot s2" by (rule mark_exited_threads_cases [OF st(3)]) simp
  moreover have "rows_snapshot (evict_prune now s3) = rows_snapshot s3" for now
    by (simp add: evict_prune_def evict_stale_threads_def prune_connection_stats_def)
  ultimately have "rows_snapshot (snd (rotate_histories_if_due (t_after t) (evict_prune (t_after t) s3)))
      = rows_snapshot s"
    using drain_rows [OF st(2)] by (simp add: rotate_rows)
  then show ?thesis
    unfolding s' after_rotation_def
    by (auto simp: publish_snapshots_def append_history_csv_def Let_def split: prod.split option.split)
qed

lemma run_rows:
  "agg_ok s \<Longrightarrow> rows_snapshot s = Unpoisoned rows0 \<Longrightarrow> run_agg_iterations (ts @ [t]) s = Some s' \<Longrightarrow>
   agg_ok s' \<and> (\<exists>blocked. rows_snapshot s' = Unpoisoned
     (published_rows blocked (connection_cache s') (conn_stats s') (stats_by_thread s')))"
proof (induction ts arbitrary: s rows0)
  case Nil
  then show ?case using iteration_rows [OF Nil(1)] agg_iteration_ok by (fastforce simp: bind_eq_Some_conv)
next
  case (Cons u ts)
  then obtain s1 where s1: "agg_iteration u s = Some s1" "run_agg_iterations (ts @ [t]) s1 = Some s'"
    by (auto simp: bind_eq_Some_conv)
  with iteration_rows [OF Cons.prems(1) s1(1)] Cons.prems(2)
  obtain rows1 where "rows_snapshot s1 = Unpoisoned rows1" by auto
  from Cons.IH [OF agg_iteration_ok [OF Cons.prems(1) s1(1)] this s1(2)] show ?case .
qed

text \<open>C2. The aggregator refines the ledger. Whatever it has been through since it was
  spawned, its counters per thread and per connection are the accounts that the events of the
  run leave, from none: one credit for each record received, in the order received, to the
  account of its owner and of its connection, and one expiry an iteration, which closes the
  accounts idle for more than thirty seconds and the connections of a thread no longer there.
  The rows published show no other threads and no other totals.\<close>

theorem aggregator_refines_ledger:
  assumes "run_aggregator_loop describe now w csv (ticks @ [t]) sh = Some (Inr s)"
    and "sh_rows sh = Unpoisoned rows0"
  shows "\<exists>r rows. resolver_new now w = Inr r \<and> rows_snapshot s = Unpoisoned rows
    \<and> ledger_of s = fold apply_event (run_log (ticks @ [t]) (agg_init now r csv sh))
        \<lparr>lg_threads = Map.empty, lg_connections = Map.empty\<rparr>
    \<and> credited (run_log (ticks @ [t]) (agg_init now r csv sh))
        = map (\<lambda>r. (fr_direction r, unat (byte_count r))) (all_records (ticks @ [t]))
    \<and> lg_threads (ledger_of s) = map_of (map (\<lambda>row. (row_key row,
        \<lparr>acc_sent = unat (pr_tx_bytes row), acc_received = unat (pr_rx_bytes row),
         acc_seen = pr_last_seen row\<rparr>)) rows)"
proof -
  obtain r where r: "resolver_new now w = Inr r"
    and run: "run_agg_iterations (ticks @ [t]) (agg_init now r csv sh) = Some s"
    using assms(1) by (auto simp: run_aggregator_loop_def split: sum.splits)
  have ok: "agg_ok (agg_init now r csv sh)" using agg_init_ok [OF resolver_new_ok [OF r]] by blast
  have "rows_snapshot (agg_init now r csv sh) = Unpoisoned rows0" by (simp add: agg_init_def assms(2))
  from run_rows [OF ok this run] obtain blocked where s: "agg_ok s"
    "rows_snapshot s = Unpoisoned (published_rows blocked (connection_cache s) (conn_stats s) (stats_by_thread s))"
    by blast
  have start: "ledger_of (agg_init now r csv sh) = \<lparr>lg_threads = Map.empty, lg_connections = Map.empty\<rparr>"
    by (simp add: ledger_of_def agg_init_def hm_get_def)
  from run_refines [OF ok run] rows_account [OF s(1)] r s(2) show ?thesis
    unfolding start by (intro exI conjI) auto
qed

text \<open>A process that received sixty bytes, and then sixty more.\<close>

theorem aggregator_refines_ledger_witness:
  "\<exists>r s. run_aggregator_loop (\<lambda>_. '''') 0 quiet_world None [quiet_tick, quiet_tick] fresh_shared = Some (Inr s)
    \<and> ledger_of s = fold apply_event (run_log [quiet_tick, quiet_tick] (agg_init 0 r None fresh_shared))
        \<lparr>lg_threads = Map.empty, lg_connections = Map.empty\<rparr>
    \<and> credited (run_log [quiet_tick, quiet_tick] (agg_init 0 r None fresh_shared)) = [(Rx, 60), (Rx, 60)]"
proof -
  obtain s where s: "run_aggregator_loop (\<lambda>_. '''') 0 quiet_world None ([quiet_tick] @ [quiet_tick]) fresh_shared
      = Some (Inr s)" using quiet_run by auto
  have rows: "sh_rows fresh_shared = Unpoisoned []" by (simp add: fresh_shared_def)
  have recs: "map (\<lambda>r. (fr_direction r, unat (byte_count r))) (all_records ([quiet_tick] @ [quiet_tick]))
      = [(Rx, 60), (Rx, 60)]"
    by (simp add: all_records_def records_of_def quiet_tick_def)
  from aggregator_refines_ledger [OF s rows] s show ?thesis
    unfolding recs by (auto simp del: run_log.simps run_agg_iterations.simps)
qed

end
