(* ===== verification/System.thy ===== *)
theory System
  imports Gui_Session Aggregator_Views
begin

text \<open>
  The whole program: the application, the capture threads it spawns, the bounded channel of
  flow records, and the aggregator that empties it, as one step relation. A capture thread
  parses a packet and sends the record when the channel has room (otherwise it waits); an
  iteration of the aggregator receives records from the front of the channel.
\<close>

section \<open>The channel\<close>

text \<open>What sender and receiver of a FIFO channel rely on; \<open>send\<close> is \<open>None\<close> where it would block,
  and \<open>recv_up_to\<close> receives until the channel is empty, at most \<open>n\<close> times.\<close>

fun recv_up_to :: "('q \<Rightarrow> ('x \<times> 'q) option) \<Rightarrow> nat \<Rightarrow> 'q \<Rightarrow> 'x list \<times> 'q" where
  "recv_up_to recv 0 q = ([], q)"
| "recv_up_to recv (Suc n) q =
     (case recv q of None \<Rightarrow> ([], q)
      | Some (x, q) \<Rightarrow> (let (xs, q) = recv_up_to recv n q in (x # xs, q)))"

locale fifo_channel =
  fixes send :: "'x \<Rightarrow> 'q \<Rightarrow> 'q option"
    and recv :: "'q \<Rightarrow> ('x \<times> 'q) option"
    and items :: "'q \<Rightarrow> 'x list"
    and capacity :: nat
  assumes send_items: "send x q = Some q' \<Longrightarrow> items q' = items q @ [x]"
    and send_room: "send x q = None \<longleftrightarrow> capacity \<le> length (items q)"
    and recv_items: "recv q = Some (x, q') \<Longrightarrow> items q = x # items q'"
    and recv_empty: "recv q = None \<longleftrightarrow> items q = []"
begin

lemma send_bounded: "send x q = Some q' \<Longrightarrow> length (items q') \<le> capacity"
  using send_items [of x q q'] send_room [of x q] by simp

lemma recv_up_to_items: "recv_up_to recv n q = (xs, q') \<Longrightarrow> items q = xs @ items q'"
proof (induction n arbitrary: q xs)
  case (Suc n)
  then show ?case
    by (cases "recv q") (auto simp: recv_items split: prod.splits)
qed simp

lemma recv_up_to_all: "length (items q) \<le> n \<Longrightarrow> \<exists>q'. recv_up_to recv n q = (items q, q') \<and> items q' = []"
proof (induction n arbitrary: q)
  case (Suc n)
  show ?case
  proof (cases "recv q")
    case None
    moreover from None have "items q = []" by (simp add: recv_empty)
    ultimately show ?thesis by simp
  next
    case (Some p)
    obtain x q1 where p: "p = (x, q1)" by (cases p)
    from recv_items [OF Some [unfolded p]] Suc.prems have "length (items q1) \<le> n" by simp
    from Suc.IH [OF this] Some p recv_items [OF Some [unfolded p]] show ?thesis by auto
  qed
qed simp

end

definition FLOW_CHANNEL_CAPACITY :: nat where "FLOW_CHANNEL_CAPACITY = 1024"

definition flow_send :: "flow_record \<Rightarrow> flow_record list \<Rightarrow> flow_record list option" where
  "flow_send rec ch = (if length ch < FLOW_CHANNEL_CAPACITY then Some (ch @ [rec]) else None)"

fun flow_recv :: "flow_record list \<Rightarrow> (flow_record \<times> flow_record list) option" where
  "flow_recv [] = None"
| "flow_recv (rec # ch) = Some (rec, ch)"

interpretation flows: fifo_channel flow_send flow_recv "\<lambda>ch. ch" FLOW_CHANNEL_CAPACITY
  by unfold_locales (auto simp: flow_send_def not_less elim: flow_recv.elims split: if_splits)

section \<open>Steps\<close>

text \<open>
  \<open>sys_sent\<close> and \<open>sys_consumed\<close> are the records sent and received so far, for the statements.
  What the aggregator shares with the application is read before and written back after
  each of its iterations.
\<close>

record 'n system =
  sys_app :: "'n netmon_app"
  sys_channel :: "flow_record list"
  sys_agg :: agg_state
  sys_sent :: "flow_record list"
  sys_consumed :: "flow_record list"

definition load_shared :: "agg_shared \<Rightarrow> agg_state \<Rightarrow> agg_state" where
  "load_shared sh g = g\<lparr>rows_snapshot := sh_rows sh, interface_snapshot := sh_interface sh,
     blocked_pids := sh_blocked sh, session_history := sh_history sh\<rparr>"

definition store_shared :: "agg_state \<Rightarrow> agg_shared \<Rightarrow> agg_shared" where
  "store_shared g sh = sh\<lparr>sh_rows := rows_snapshot g, sh_interface := interface_snapshot g,
     sh_history := session_history g\<rparr>"

inductive sys_step :: "'n nft_cli \<Rightarrow> 'n system \<Rightarrow> 'n system \<Rightarrow> bool" for nft where
  application: "app_step nft (sys_app s) a \<Longrightarrow> sys_step nft s (s\<lparr>sys_app := a\<rparr>)"
| captured: "t \<in> set (spawned (sys_app s))
    \<Longrightarrow> parse_packet now data len (th_local_ips t) = Some (Some rec)
    \<Longrightarrow> flow_send rec (sys_channel s) = Some ch
    \<Longrightarrow> sys_step nft s (s\<lparr>sys_channel := ch, sys_sent := sys_sent s @ [rec]\<rparr>)"
| aggregated: "recv_up_to flow_recv n (sys_channel s) = (records_of (t_records t), ch)
    \<Longrightarrow> agg_iteration t (load_shared (shared (sys_app s)) (sys_agg s)) = Some g
    \<Longrightarrow> sys_step nft s (s\<lparr>sys_channel := ch, sys_agg := g,
          sys_app := (sys_app s)\<lparr>shared := store_shared g (shared (sys_app s))\<rparr>,
          sys_consumed := sys_consumed s @ records_of (t_records t)\<rparr>)"

inductive sys_reachable :: "'n nft_cli \<Rightarrow> 'n system \<Rightarrow> bool" for nft where
  started: "start_app nft os is_root ds c = Inr a \<Longrightarrow> resolver_new now w = Inr r
    \<Longrightarrow> sys_reachable nft \<lparr>sys_app = a, sys_channel = [], sys_agg = agg_init now r csv (shared a),
          sys_sent = [], sys_consumed = []\<rparr>"
| stepped: "sys_reachable nft s \<Longrightarrow> sys_step nft s s' \<Longrightarrow> sys_reachable nft s'"

inductive_cases sys_stepE: "sys_step nft s s'"

section \<open>Invariants\<close>

text \<open>The application within the system only does its own steps.\<close>

lemma sys_app_reachable: "sys_reachable nft s \<Longrightarrow> reachable nft (sys_app s)"
proof (induction rule: sys_reachable.induct)
  case (started os is_root ds c a now w r csv)
  then show ?case by (simp add: reachable.started)
next
  case (stepped s s')
  from stepped(2,3) show ?case
    by (cases rule: sys_step.cases) (auto intro: reachable.stepped app_step.publish)
qed

definition flow_ok :: "flow_key \<Rightarrow> bool" where
  "flow_ok k \<longleftrightarrow> ip_wf (src_ip k) \<and> ip_wf (dst_ip k) \<and> same_family (src_ip k) (dst_ip k)
     \<and> (fk_protocol k = Tcp \<or> fk_protocol k = Udp)"

lemma parsed_flow_ok: "parse_packet now data len ips = Some (Some rec) \<Longrightarrow> flow_ok (fr_key rec)"
  by (auto dest!: parse_packet_accepts
      simp: record_of_def flow_of_def l4_of_def ip_of_def frame_wf_def l3_wf_def flow_ok_def)

lemma parsed_without_locals: "parse_packet now data len [] = Some (Some rec) \<Longrightarrow> fr_direction rec = Tx"
  by (auto dest!: parse_packet_accepts simp: record_of_def classify_direction_def)

definition sys_ok :: "'n system \<Rightarrow> bool" where
  "sys_ok s \<longleftrightarrow> length (sys_channel s) \<le> FLOW_CHANNEL_CAPACITY
     \<and> sys_sent s = sys_consumed s @ sys_channel s
     \<and> (\<forall>rec \<in> set (sys_sent s). flow_ok (fr_key rec) \<and> fr_direction rec = Tx)
     \<and> agg_ok (sys_agg s)
     \<and> ((\<forall>d. received (sys_sent s) d < 2 ^ 64) \<longrightarrow> accounts (received (sys_consumed s)) (sys_agg s))"

lemma load_shared_keeps [simp]:
  "agg_ok (load_shared sh g) = agg_ok g" "accounts n (load_shared sh g) = accounts n g"
  by (simp_all add: load_shared_def agg_ok_def accounts_def all_direction)

lemma sys_step_ok:
  assumes "sys_step nft s s'" and ok: "sys_ok s" and app: "session_ok (sys_app s)"
  shows "sys_ok s'"
  using assms(1)
proof (cases rule: sys_step.cases)
  case (application a)
  with ok show ?thesis by (simp add: sys_ok_def)
next
  case (captured t now data len rec ch)
  have "th_local_ips t = []" using session_okD(7) [OF app captured(2)] by simp
  with captured(3) have "flow_ok (fr_key rec)" "fr_direction rec = Tx"
    using parsed_flow_ok parsed_without_locals by metis+
  moreover have "ch = sys_channel s @ [rec]" "length ch \<le> FLOW_CHANNEL_CAPACITY"
    using flows.send_items [OF captured(4)] flows.send_bounded [OF captured(4)] by simp_all
  moreover have "(\<forall>d. received (sys_sent s @ [rec]) d < 2 ^ 64) \<longrightarrow> (\<forall>d. received (sys_sent s) d < 2 ^ 64)"
    by (auto intro: add_lessD1)
  ultimately show ?thesis using ok by (auto simp: sys_ok_def captured(1))
next
  case (aggregated n t ch g)
  have ch: "sys_channel s = records_of (t_records t) @ ch"
    using flows.recv_up_to_items [OF aggregated(2)] by simp
  have "accounts (received (sys_consumed s @ records_of (t_records t))) g"
    if b: "\<forall>d. received (sys_sent s) d < 2 ^ 64"
  proof -
    have "received (sys_sent s) d = received (sys_consumed s) d + received (records_of (t_records t)) d + received ch d" for d
      using ok ch by (simp add: sys_ok_def)
    with b have room: "\<forall>d. received (sys_consumed s) d + received (records_of (t_records t)) d < 2 ^ 64"
      by (metis add_lessD1)
    have "(\<lambda>d. received (sys_consumed s) d + received (records_of (t_records t)) d)
        = received (sys_consumed s @ records_of (t_records t))" by auto
    then show ?thesis
      using agg_iteration_accounts [OF _ _ room aggregated(3)] ok b by (simp add: sys_ok_def)
  qed
  moreover have "agg_ok g" using agg_iteration_ok [OF _ aggregated(3)] ok by (simp add: sys_ok_def)
  ultimately show ?thesis using ok ch by (simp add: sys_ok_def aggregated(1))
qed

lemma sys_reachable_ok: "sys_reachable nft s \<Longrightarrow> sys_ok s"
proof (induction rule: sys_reachable.induct)
  case (started os is_root ds c a now w r csv)
  have "agg_ok (agg_init now r csv (shared a)) \<and> accounts (\<lambda>_. 0) (agg_init now r csv (shared a))"
    by (rule agg_init_ok [OF resolver_new_ok [OF started(2)]])
  moreover have "received [] = (\<lambda>_. 0)" by auto
  ultimately show ?case by (simp add: sys_ok_def)
next
  case (stepped s s')
  then show ?case
    using sys_step_ok [OF _ _ reachable_ok [OF sys_app_reachable]] by blast
qed

section \<open>A run\<close>

text \<open>For the witnesses: the application is started, then a capture, and a DNS query is sent.\<close>

definition quiet_cache :: resolver_cache where
  "quiet_cache = (case resolver_new 0 quiet_world of Inr r \<Rightarrow> r | Inl e \<Rightarrow> ssh_cache)"

lemma quiet_cache: "resolver_new 0 quiet_world = Inr quiet_cache"
proof -
  have "\<exists>r. resolver_new 0 quiet_world = Inr r"
    by (simp add: resolver_new_def load_uid_map_def quiet_world_def dead_world_def)
  then show ?thesis by (auto simp: quiet_cache_def)
qed

definition dns_record :: flow_record where
  "dns_record = \<lparr>fr_key = dns_key, byte_count = 42, timestamp = 7, fr_direction = Tx\<rparr>"

definition dns_system :: "unit system" where
  "dns_system = \<lparr>sys_app = capturing_app, sys_channel = [dns_record],
     sys_agg = agg_init 0 quiet_cache None (shared desk_app), sys_sent = [dns_record], sys_consumed = []\<rparr>"

lemma capturing_spawned: "\<exists>t. t \<in> set (spawned capturing_app) \<and> th_local_ips t = []"
proof -
  have ok: "session_ok capturing_app" by (rule reachable_ok [OF reachable_capturing])
  from session_okD(7,9) [OF this] start_on_desk show ?thesis by blast
qed

lemma reachable_dns_system: "sys_reachable quiet_nft dns_system"
proof -
  let ?s0 = "\<lparr>sys_app = desk_app, sys_channel = [], sys_agg = agg_init 0 quiet_cache None (shared desk_app),
     sys_sent = [], sys_consumed = []\<rparr> :: unit system"
  let ?s1 = "?s0\<lparr>sys_app := capturing_app\<rparr>"
  have "sys_reachable quiet_nft ?s0" using desk_started quiet_cache by (rule sys_reachable.started)
  moreover have "sys_step quiet_nft ?s0 ?s1"
    using app_step.frame [of quiet_nft desk_app desk_os "[ToggleCapture]"]
    by (intro sys_step.application) (simp add: capturing_app_def)
  ultimately have r1: "sys_reachable quiet_nft ?s1" by (rule sys_reachable.stepped)
  obtain t where t: "t \<in> set (spawned (sys_app ?s1))" "th_local_ips t = []"
    using capturing_spawned by auto
  have "parse_packet 7 dns_frame 42 [] = Some (Some dns_record)"
    using dns_pass by (auto simp: parsed_of_def quiet_pass_def dns_record_def split: option.splits)
  then have "sys_step quiet_nft ?s1 (?s1\<lparr>sys_channel := [dns_record], sys_sent := sys_sent ?s1 @ [dns_record]\<rparr>)"
    using t by (intro sys_step.captured [of t]) (simp_all add: flow_send_def FLOW_CHANNEL_CAPACITY_def)
  with r1 have "sys_reachable quiet_nft (?s1\<lparr>sys_channel := [dns_record], sys_sent := sys_sent ?s1 @ [dns_record]\<rparr>)"
    by (rule sys_reachable.stepped)
  then show ?thesis by (simp add: dns_system_def)
qed

lemma dns_system_small: "\<forall>d. received (sys_sent dns_system) d < 2 ^ 64"
  by (simp add: dns_system_def dns_record_def)

section \<open>Properties of the whole program\<close>

text \<open>C4. Between the capture threads and the aggregator no record is lost, duplicated or
  reordered, whatever the interleaving: what was sent is what was received followed by what
  waits in the channel, which never holds more than 1024 records; and the interface total of
  a direction is the bytes of exactly the records received, as long as fewer than \<open>2 ^ 64\<close>
  were sent.\<close>

theorem system_conserves_records:
  assumes "sys_reachable nft s" and "\<forall>d. received (sys_sent s) d < 2 ^ 64"
  shows "length (sys_channel s) \<le> 1024
    \<and> sys_sent s = sys_consumed s @ sys_channel s
    \<and> unat (if_tot d (sys_agg s)) = received (sys_consumed s) d
    \<and> threads_sum d (stats_by_thread (sys_agg s)) \<le> received (sys_consumed s) d"
  using sys_reachable_ok [OF assms(1)] assms(2) accountsD(1,2)
  by (simp add: sys_ok_def FLOW_CHANNEL_CAPACITY_def)

theorem system_conserves_records_witness:
  "length (sys_channel dns_system) \<le> 1024
    \<and> sys_sent dns_system = sys_consumed dns_system @ sys_channel dns_system
    \<and> unat (if_tot Tx (sys_agg dns_system)) = received (sys_consumed dns_system) Tx
    \<and> threads_sum Tx (stats_by_thread (sys_agg dns_system)) \<le> received (sys_consumed dns_system) Tx"
  by (rule system_conserves_records [OF reachable_dns_system dns_system_small])

text \<open>C33. Every record on its way to the aggregator is well formed: a TCP or UDP flow between
  two addresses of one family, sixteen octets each for IPv6.\<close>

theorem records_well_formed:
  assumes "sys_reachable nft s"
  shows "list_all (\<lambda>rec. ip_wf (src_ip (fr_key rec)) \<and> ip_wf (dst_ip (fr_key rec))
      \<and> same_family (src_ip (fr_key rec)) (dst_ip (fr_key rec))
      \<and> (fk_protocol (fr_key rec) = Tcp \<or> fk_protocol (fr_key rec) = Udp)) (sys_channel s)"
  using sys_reachable_ok [OF assms] by (auto simp: sys_ok_def flow_ok_def list_all_iff)

theorem records_well_formed_witness:
  "list_all (\<lambda>rec. ip_wf (src_ip (fr_key rec)) \<and> ip_wf (dst_ip (fr_key rec))
      \<and> same_family (src_ip (fr_key rec)) (dst_ip (fr_key rec))
      \<and> (fk_protocol (fr_key rec) = Tcp \<or> fk_protocol (fr_key rec) = Udp)) (sys_channel dns_system)"
  by (rule records_well_formed [OF reachable_dns_system])

text \<open>C3. The program never sees inbound traffic. The application passes no local addresses to
  the capture threads, so every packet is classified as transmitted: all received totals, of
  the interface and of every thread, stay zero, and downloads are counted as uploads.\<close>

theorem received_traffic_never_counted:
  assumes "sys_reachable nft s" and "\<forall>d. received (sys_sent s) d < 2 ^ 64"
  shows "list_all (\<lambda>rec. fr_direction rec = Tx) (sys_sent s) \<and> if_rx_total (sys_agg s) = 0
    \<and> list_all (\<lambda>st. rx_bytes_total st = 0) (hm_values (stats_by_thread (sys_agg s)))
    \<and> unat (if_tx_total (sys_agg s)) = (\<Sum>rec \<leftarrow> sys_consumed s. unat (byte_count rec))"
proof -
  have ok: "sys_ok s" using assms(1) by (rule sys_reachable_ok)
  then have tx: "\<forall>rec \<in> set (sys_sent s). fr_direction rec = Tx" by (simp add: sys_ok_def)
  moreover have "set (sys_consumed s) \<subseteq> set (sys_sent s)" using ok by (auto simp: sys_ok_def)
  ultimately have txc: "\<forall>rec \<in> set (sys_consumed s). fr_direction rec = Tx" by blast
  then have rx: "received (sys_consumed s) Rx = 0" by (induction "sys_consumed s") (auto simp: received_def)
  have sent: "received (sys_consumed s) Tx = (\<Sum>rec \<leftarrow> sys_consumed s. unat (byte_count rec))"
    unfolding received_def using txc by (intro arg_cong [of _ _ sum_list] map_cong) auto
  have acc: "accounts (received (sys_consumed s)) (sys_agg s)" using ok assms(2) by (simp add: sys_ok_def)
  have "rx_bytes_total st = 0" if "st \<in> set (hm_values (stats_by_thread (sys_agg s)))" for st
  proof -
    have "st \<in> snd ` set (stats_by_thread (sys_agg s))" using that by (simp add: hm_values_def)
    then obtain k where k: "(k, st) \<in> set (stats_by_thread (sys_agg s))"
      by (elim imageE) (use prod.collapse in force)
    then have "hm_get (stats_by_thread (sys_agg s)) k = Some st"
      using agg_okD(2) ok by (simp add: hm_get_Some_iff sys_ok_def)
    from hm_sum_mem [OF this, of "\<lambda>_ st. unat (tot Rx st)"] accountsD(2) [OF acc, of Rx] rx
    show ?thesis by (simp add: threads_sum_def unsigned_eq_0_iff)
  qed
  with tx rx sent accountsD(1) [OF acc, of Rx] accountsD(1) [OF acc, of Tx] show ?thesis
    by (simp add: list_all_iff unsigned_eq_0_iff)
qed

theorem received_traffic_never_counted_witness:
  "list_all (\<lambda>rec. fr_direction rec = Tx) (sys_sent dns_system) \<and> if_rx_total (sys_agg dns_system) = 0
    \<and> list_all (\<lambda>st. rx_bytes_total st = 0) (hm_values (stats_by_thread (sys_agg dns_system)))
    \<and> unat (if_tx_total (sys_agg dns_system)) = (\<Sum>rec \<leftarrow> sys_consumed dns_system. unat (byte_count rec))"
  by (rule received_traffic_never_counted [OF reachable_dns_system dns_system_small])



end
