(* ===== verification/Spec2Isabelle.thy ===== *)
theory Spec2Isabelle
  imports Proc_Fallback Controller_Spec Gui_Control Gui_Views Gui_Cells Ledger System
begin

text \<open>
  netmon: a verification development for the whole program.

  The program. netmon captures the packets of one interface, attributes every flow to a
  process and a thread, keeps byte counters and histories per thread and per connection,
  shows them, and lets the user block or limit a process with nftables. A frame goes through
  five crates, each of them a group of theories here.

  \<^item> crates/capture: a thread reads frames from libpcap, parses each (\<open>parse_packet\<close>) and sends
    a \<open>FlowRecord\<close> into a bounded channel; it polls a stop flag and a queue of commands.
    \<open>Capture\<close> is the parser, \<open>Capture_Wire\<close> the byte layout of the frames it accepts and the
    proof that it accepts exactly those, \<open>Capture_Loop\<close> the thread, its control handle and
    what a loop sends, records and leaves behind.
  \<^item> crates/resolver: the sockets of the kernel are read over netlink, or from /proc/net when
    that fails, and joined by inode with a scan of the descriptors of all threads. \<open>Netlink\<close>
    and \<open>Netlink_Wire\<close> are netlink.rs (request, reply parser, the four dumps) and its byte
    layout, \<open>Proc_Fallback\<close> is proc_fallback.rs, \<open>Pid_Map\<close> is pid_map.rs, and \<open>Resolver\<close> is
    lib.rs: the cache, its rate-limited refresh, and the search for the owner of a flow.
  \<^item> crates/aggregator: one thread owns all counters. \<open>Aggregator\<close> has its state as one record
    and every operation of its loop, \<open>Aggregator_Inv\<close> the invariant and the accounting,
    \<open>Aggregator_Views\<close> the published rows, histories, eviction and the history file.
    \<open>Ledger\<close> is its specification, accounts per thread and per connection with credits and
    expiries, and the proof that the loop refines it. \<open>Attribution\<close> follows one packet from its
    bytes, through the replies of the kernel and the scan of /proc, to the row that counts it.
  \<^item> crates/controller: \<open>Controller\<close> builds rulesets, calls nft, finds handles in what nft
    lists and tracks them by process; \<open>Controller_Spec\<close> states what nft documents of the calls
    made, as a predicate on the parameter, and proves what blocking, unblocking and limiting
    then do to the output chain.
  \<^item> crates/gui: \<open>Gui\<close> is the application: its state, the handlers of every widget, the drain
    of the status channel, the exports, start-up with its check of privileges, and shutdown.
    \<open>Gui_Session\<close> runs it as a state machine, \<open>Gui_Control\<close> follows its actions into the packet
    filter, \<open>Gui_Views\<close> is what it sorts, sums and exports, and \<open>Gui_Cells\<close> the texts and
    colours of its tables, totals and chart. \<open>Addr_Text\<close> is how Rust prints a socket address.
  \<^item> \<open>System\<close> composes them: capture threads, the bounded channel, the aggregator, the shared
    snapshots and the application, as one step relation over the definitions above.

  \<open>Rust_Prelude\<close>, \<open>Rust_Text\<close> and \<open>Rust_Sort\<close> hold what the crates use of Rust: words,
  checked indexing, hash maps, locks and durations; the operations of \<open>str\<close> and the parsing
  and printing of numbers; comparators and the stable sort.

  How the code is rendered.

  \<^item> Machine integers are words of their width. Additions the code does not saturate wrap
    around, as in a release build. A length or an offset is a \<open>nat\<close> where the code only
    compares and indexes with it.
  \<^item> A panic (an index or a slice out of range) is \<open>None\<close> of an outer option; the code's own
    \<open>Option\<close> is inside it, and its \<open>Result\<close> is a sum with the error on the left. That no input
    panics is a theorem of each parser.
  \<^item> A \<open>HashMap\<close> is an association list in an unspecified order: the results that depend on no
    order say so by a multiset, a set, or a sorted list. Locale \<open>hash_map\<close> is its contract.
  \<^item> A lock is poisoned or holds its value. The threads of the program are steps of \<open>System\<close>,
    between the steps at which they take a lock or receive a message.
  \<^item> An \<open>f64\<close> is the rational it stands for. A conversion from \<open>u64\<close> rounds to 53 bits, to even
    on a tie; what the code multiplies and divides by is a power of two, so that its arithmetic
    is exact; and a number is printed with so many decimals, again rounded to even.
  \<^item> Strings are lists of characters; the characters the code inspects are ASCII ones.
  \<^item> The outside (libpcap, the netlink socket, files and /proc, nft, clocks, the widgets of
    egui) is a parameter: a function, a record of functions, or the list of inputs a loop
    consumes. A theorem assumes of it only what it states in its hypotheses. A loop is run over
    the list of its inputs (the passes of the capture loop, the ticks of the aggregator, the
    datagrams of a dump), so the length of that list is how long it runs; the theorems that a
    loop returns name the input on which it does. A parser loop over bytes ends because its
    offset grows, and is proved to return for every input.

  Interfaces. The locales are \<open>hash_map\<close> and \<open>rate_gate\<close> (the three timers that let an
  operation run once a period), \<open>l3_parser\<close> (what the frame parser needs of the parsers for the
  two IP versions), \<open>socket_source\<close> (what the resolver needs of netlink and of the fallback),
  \<open>total_cmp\<close> (what a stable sort needs of a comparator) and \<open>fifo_channel\<close> (the bounded
  channel); each is interpreted on the code's own definitions in the theory that has them.

  What is proved, by group.

  \<^item> Frames and replies: the parser accepts exactly the encodings of the frames it is meant for
    and returns their fields; kernel replies are read back message by message; both sources of
    sockets agree on the same socket; no input makes a parser panic or run on.
  \<^item> The whole path: a packet is counted for the process whose descriptor the kernel and /proc
    show, and in its published row; over a run, the counters are the ledger of the records.
  \<^item> Attribution: the owner of a flow is that of a matching cached socket, whichever direction
    the flow is seen in; the scan puts a socket down to the thread scanned last; connection
    rows and lookups agree but for sockets without a process.
  \<^item> Counters: the interface totals are the bytes received, the threads account for no more
    than the interface, the connections of a thread for no more than the thread, the histories
    for no more than the total; published rows are the threads in order, once each.
  \<^item> Traffic control: block then unblock restores chain and map; a second limit replaces the
    first; an unblock spares other processes but for those named after its marker; what it
    leaves when a handle is stale; what it does to a rate limit; whose traffic a rule reaches.
  \<^item> The tables: a connection can be read back from the texts of its row; the totals shown are
    off by no more than half their last digit, beyond what a float loses.
  \<^item> The session: a capture handle exists exactly while the application says it captures;
    at most one capture thread, the current one, has its flag set, and only while it captures;
    closing leaves none; the effect of a message an earlier capture left in the status channel.
  \<^item> The composition: the channel stays within its 1024 slots, nothing sent is lost or
    reordered, the totals are those of the records consumed, the channel can always be drained,
    and, since the application passes no local address, nothing counts as received.

  Several of these state what the code does where its comments or documents say something
  else: the theorem then describes the code.

  Not modelled. The layout, widths and shades of the egui panels; creating threads
  (\<open>spawn_aggregator_thread\<close> hands its arguments to the modelled loop) and logging; the \<open>Resolver\<close>
  wrapper, which only delegates to the cache; the bytes libpcap writes into a recording. The
  crates pcap, netlink-sys, eframe and nix are parameters or left out, as their code is not
  part of the repository. Of the functions of the eight files, what is left is those.

  To do next: the histories in the ledger, and the path of a packet to the text of its row.
\<close>

end
